theory Spec2Isabelle
  imports Main
begin

section \<open>Strings and squares\<close>

text \<open>
  The puzzle trainer (\<^verbatim>\<open>crates/web/static/js/puzzles.js\<close>) works on JavaScript strings.
  A string is modelled as a \<^typ>\<open>string\<close>; the model covers ASCII text, which is what FEN
  strings, square names and UCI move codes consist of. \<^verbatim>\<open>toUpperCase\<close> and
  \<^verbatim>\<open>toLowerCase\<close> map the 26 ASCII letters and leave every other character as it is.
\<close>

definition lower_letters :: "char list" where
  "lower_letters = ''abcdefghijklmnopqrstuvwxyz''"

definition upper_letters :: "char list" where
  "upper_letters = ''ABCDEFGHIJKLMNOPQRSTUVWXYZ''"

definition toUpperCase_char :: "char \<Rightarrow> char" where
  "toUpperCase_char c =
     (case map_of (zip lower_letters upper_letters) c of None \<Rightarrow> c | Some u \<Rightarrow> u)"

definition toLowerCase_char :: "char \<Rightarrow> char" where
  "toLowerCase_char c =
     (case map_of (zip upper_letters lower_letters) c of None \<Rightarrow> c | Some l \<Rightarrow> l)"

definition toUpperCase :: "string \<Rightarrow> string" where
  "toUpperCase s = map toUpperCase_char s"

definition toLowerCase :: "string \<Rightarrow> string" where
  "toLowerCase s = map toLowerCase_char s"

text \<open>\<^verbatim>\<open>s.startsWith(p)\<close>.\<close>

fun startsWith :: "string \<Rightarrow> string \<Rightarrow> bool" where
  "startsWith s [] = True"
| "startsWith [] (p # ps) = False"
| "startsWith (c # cs) (p # ps) = (c = p \<and> startsWith cs ps)"

text \<open>\<^verbatim>\<open>s.split(sep)\<close> for a one-character separator: never the empty array.\<close>

fun split :: "char \<Rightarrow> string \<Rightarrow> string list" where
  "split sep [] = [[]]"
| "split sep (c # cs) =
     (if c = sep then [] # split sep cs
      else (case split sep cs of [] \<Rightarrow> [[c]] | w # ws \<Rightarrow> (c # w) # ws))"

text \<open>\<^verbatim>\<open>s[i]\<close> and \<^verbatim>\<open>xs[i]\<close>: \<^verbatim>\<open>undefined\<close> out of range, here \<^const>\<open>None\<close>.\<close>

definition at_index :: "'a list \<Rightarrow> nat \<Rightarrow> 'a option" where
  "at_index xs i = (if i < length xs then Some (xs ! i) else None)"

text \<open>\<^verbatim>\<open>xs.indexOf(x)\<close>: the first position of \<open>x\<close>, or \<open>-1\<close>.\<close>

fun indexOf :: "'a list \<Rightarrow> 'a \<Rightarrow> int" where
  "indexOf [] x = -1"
| "indexOf (y # ys) x =
     (if x = y then 0 else (let i = indexOf ys x in if i < 0 then -1 else i + 1))"

definition FILES :: "char list" where
  "FILES = ''abcdefgh''"

definition RANKS :: "char list" where
  "RANKS = ''12345678''"

text \<open>
  \<^verbatim>\<open>FILES.indexOf(square[0])\<close>: the character may be \<^verbatim>\<open>undefined\<close> (a string that is
  too short), which is in no array.
\<close>

definition indexOf_opt :: "char list \<Rightarrow> char option \<Rightarrow> int" where
  "indexOf_opt xs co = (case co of None \<Rightarrow> -1 | Some c \<Rightarrow> indexOf xs c)"

text \<open>
  \<^verbatim>\<open>FILES[f]\<close> and \<^verbatim>\<open>RANKS[r]\<close> inside a string concatenation: out of range the array
  gives \<^verbatim>\<open>undefined\<close>, which the concatenation turns into the text \<^verbatim>\<open>undefined\<close>.
\<close>

definition FILES_at :: "int \<Rightarrow> string" where
  "FILES_at f = (if 0 \<le> f \<and> f < 8 then [FILES ! nat f] else ''undefined'')"

definition RANKS_at :: "int \<Rightarrow> string" where
  "RANKS_at r = (if 0 \<le> r \<and> r < 8 then [RANKS ! nat r] else ''undefined'')"

text \<open>A well-formed square: a file letter \<open>a\<close>-\<open>h\<close> followed by a rank digit \<open>1\<close>-\<open>8\<close>.\<close>

definition is_square :: "string \<Rightarrow> bool" where
  "is_square sq = (case sq of [f, r] \<Rightarrow> f \<in> set FILES \<and> r \<in> set RANKS | _ \<Rightarrow> False)"

section \<open>FEN parsing\<close>

datatype color = White | Black

text \<open>
  The only failure of \<^verbatim>\<open>parseFen\<close> is the \<^verbatim>\<open>TypeError\<close> that the \<^verbatim>\<open>for ... of\<close>
  loop throws on a missing row (\<^verbatim>\<open>rows[rankIdx]\<close> is \<^verbatim>\<open>undefined\<close>). The same error
  is what \<^verbatim>\<open>state.puzzle.best_move\<close> throws when no puzzle is loaded.
\<close>

datatype error = TypeError

type_synonym board = "string \<rightharpoonup> char"

text \<open>
  The inner loop of \<^verbatim>\<open>parseFen\<close> over the characters of one row. A digit \<open>1\<close>-\<open>8\<close>
  advances the file index, any other character is stored as a piece under the key
  \<^verbatim>\<open>FILES[fileIdx] + rank\<close>.
\<close>

fun parseRow :: "string \<Rightarrow> char \<Rightarrow> board \<Rightarrow> int \<Rightarrow> board" where
  "parseRow [] rank pieces fileIdx = pieces"
| "parseRow (c # cs) rank pieces fileIdx =
     (if 49 \<le> (of_char c :: nat) \<and> (of_char c :: nat) \<le> 56
      then parseRow cs rank pieces (fileIdx + (int (of_char c) - 48))
      else parseRow cs rank (pieces(FILES_at fileIdx @ [rank] \<mapsto> c)) (fileIdx + 1))"

text \<open>The outer loop, \<^verbatim>\<open>for (let rankIdx = 0; rankIdx < 8; rankIdx++)\<close>.\<close>

function parseRanks :: "string list \<Rightarrow> nat \<Rightarrow> board \<Rightarrow> error + board" where
  "parseRanks rows rankIdx pieces =
     (if rankIdx < 8 then
        (case at_index rows rankIdx of
           None \<Rightarrow> Inl TypeError
         | Some row \<Rightarrow> parseRanks rows (rankIdx + 1) (parseRow row (RANKS ! (7 - rankIdx)) pieces 0))
      else Inr pieces)"
  by pat_completeness auto
termination
  by (relation "measure (\<lambda>(rows, rankIdx, pieces). 8 - rankIdx)") auto

declare parseRanks.simps [simp del]

record parsed =
  parsed_pieces :: board
  parsed_turn :: color
  parsed_castling :: string

text \<open>\<^verbatim>\<open>parts[i] || dflt\<close>: the default replaces a missing or empty part.\<close>

definition or_default :: "string option \<Rightarrow> string \<Rightarrow> string" where
  "or_default so dflt = (case so of None \<Rightarrow> dflt | Some s \<Rightarrow> if s = [] then dflt else s)"

definition parseFen :: "string \<Rightarrow> error + parsed" where
  "parseFen fen =
     (let parts = split (CHR '' '') fen;
          position = hd parts;
          turn = or_default (at_index parts 1) ''w'';
          castling = or_default (at_index parts 2) ''-'';
          rows = split (CHR ''/'') position
      in case parseRanks rows 0 Map.empty of
           Inl e \<Rightarrow> Inl e
         | Inr pieces \<Rightarrow>
             Inr \<lparr> parsed_pieces = pieces,
                   parsed_turn = (if turn = ''w'' then White else Black),
                   parsed_castling = (if castling = ''-'' then [] else castling) \<rparr>)"

section \<open>The session state\<close>

text \<open>
  The global \<^verbatim>\<open>state\<close> object. \<^verbatim>\<open>pieces\<close> is a JavaScript object used as a dictionary
  from square names to piece letters; the code only ever reads single keys of it, so a key
  whose value is \<^verbatim>\<open>undefined\<close> is the same as a key that is absent, and both are
  \<^const>\<open>None\<close> here. The keys are square names; the properties that every JavaScript
  object inherits (such as \<^verbatim>\<open>constructor\<close>) are not squares of the page and are not
  modelled. The fields \<^verbatim>\<open>dragElement\<close> and \<^verbatim>\<open>currentHoverSquare\<close> belong
  to the page (the ghost image and the hover highlight) and are left out, as are sounds,
  feedback texts and rendering. Counters are JavaScript numbers, here natural numbers.
\<close>

record puzzle_data =
  fen :: string
  best_move :: string

record state =
  puzzle :: "puzzle_data option"
  selectedSquare :: "string option"
  solved :: bool
  perspective :: color
  pieces :: board
  turn :: color
  lastMove :: "(string \<times> string) option"
  castling :: string
  dragging :: "string option"
  dragStartX :: int
  dragStartY :: int
  hasDragged :: bool
  totalSolved :: nat
  totalAttempts :: nat
  animating :: bool

text \<open>
  Truthiness of a value that is \<^verbatim>\<open>null\<close>, \<^verbatim>\<open>undefined\<close> or a string: the empty
  string is falsy as well.
\<close>

definition truthy :: "string option \<Rightarrow> bool" where
  "truthy so = (case so of None \<Rightarrow> False | Some s \<Rightarrow> s \<noteq> [])"

text \<open>\<^verbatim>\<open>piece === piece.toUpperCase()\<close>\<close>

definition isWhitePiece :: "char \<Rightarrow> bool" where
  "isWhitePiece piece = (piece = toUpperCase_char piece)"

definition isOwnPiece :: "state \<Rightarrow> string \<Rightarrow> bool" where
  "isOwnPiece s square =
     (case pieces s square of
        None \<Rightarrow> False
      | Some piece \<Rightarrow> ((turn s = White) = isWhitePiece piece))"

definition isEnemyPiece :: "state \<Rightarrow> string \<Rightarrow> bool" where
  "isEnemyPiece s square =
     (case pieces s square of
        None \<Rightarrow> False
      | Some piece \<Rightarrow> ((turn s = White) \<noteq> isWhitePiece piece))"

text \<open>The object literal that \<^verbatim>\<open>state\<close> is initialised with.\<close>

definition initial_state :: state where
  "initial_state =
     \<lparr> puzzle = None, selectedSquare = None, solved = False, perspective = White,
       pieces = Map.empty, turn = White, lastMove = None, castling = [],
       dragging = None, dragStartX = 0, dragStartY = 0, hasDragged = False,
       totalSolved = 0, totalAttempts = 0, animating = False \<rparr>"

section \<open>Move generation\<close>

text \<open>
  The closures of \<^verbatim>\<open>getPseudoLegalMoves\<close> push onto the local array \<^verbatim>\<open>moves\<close>; here
  they take the array and return it extended.
\<close>

definition addMove :: "board \<Rightarrow> bool \<Rightarrow> string list \<Rightarrow> int \<Rightarrow> int \<Rightarrow> string list" where
  "addMove ps isWhite moves f r =
     (if 0 \<le> f \<and> f < 8 \<and> 0 \<le> r \<and> r < 8 then
        (let target = FILES_at f @ RANKS_at r in
         case ps target of
           None \<Rightarrow> moves @ [target]
         | Some targetPiece \<Rightarrow>
             if isWhite \<noteq> isWhitePiece targetPiece then moves @ [target] else moves)
      else moves)"

definition isEmpty :: "board \<Rightarrow> string \<Rightarrow> bool" where
  "isEmpty ps sq = (ps sq = None)"

text \<open>
  The \<^verbatim>\<open>while\<close> loop of \<^verbatim>\<open>addSlide\<close>. With \<open>df = dr = 0\<close> on an empty square the loop
  would never end, so the loop is a partial function: \<^const>\<open>None\<close> stands for not
  returning.
\<close>

partial_function (option) addSlide_loop ::
  "board \<Rightarrow> bool \<Rightarrow> int \<Rightarrow> int \<Rightarrow> int \<Rightarrow> int \<Rightarrow> string list \<Rightarrow> string list option" where
  "addSlide_loop ps isWhite df dr f r moves =
     (if 0 \<le> f \<and> f < 8 \<and> 0 \<le> r \<and> r < 8 then
        (case ps (FILES_at f @ RANKS_at r) of
           None \<Rightarrow> addSlide_loop ps isWhite df dr (f + df) (r + dr) (moves @ [FILES_at f @ RANKS_at r])
         | Some targetPiece \<Rightarrow>
             Some (if isWhite \<noteq> isWhitePiece targetPiece
                   then moves @ [FILES_at f @ RANKS_at r] else moves))
      else Some moves)"

declare addSlide_loop.simps [code]

definition addSlide ::
  "board \<Rightarrow> bool \<Rightarrow> int \<Rightarrow> int \<Rightarrow> string list \<Rightarrow> int \<Rightarrow> int \<Rightarrow> string list option" where
  "addSlide ps isWhite fileIdx rankIdx moves df dr =
     addSlide_loop ps isWhite df dr (fileIdx + df) (rankIdx + dr) moves"

text \<open>\<^verbatim>\<open>for (const [df, dr] of [...]) addSlide(df, dr)\<close>\<close>

fun addSlides ::
  "board \<Rightarrow> bool \<Rightarrow> int \<Rightarrow> int \<Rightarrow> (int \<times> int) list \<Rightarrow> string list \<Rightarrow> string list option" where
  "addSlides ps isWhite fileIdx rankIdx [] moves = Some moves"
| "addSlides ps isWhite fileIdx rankIdx ((df, dr) # ds) moves =
     (case addSlide ps isWhite fileIdx rankIdx moves df dr of
        None \<Rightarrow> None
      | Some moves' \<Rightarrow> addSlides ps isWhite fileIdx rankIdx ds moves')"

text \<open>\<^verbatim>\<open>for (const [df, dr] of [...]) addMove(fileIdx + df, rankIdx + dr)\<close>\<close>

fun addMoves ::
  "board \<Rightarrow> bool \<Rightarrow> int \<Rightarrow> int \<Rightarrow> (int \<times> int) list \<Rightarrow> string list \<Rightarrow> string list" where
  "addMoves ps isWhite fileIdx rankIdx [] moves = moves"
| "addMoves ps isWhite fileIdx rankIdx ((df, dr) # ds) moves =
     addMoves ps isWhite fileIdx rankIdx ds (addMove ps isWhite moves (fileIdx + df) (rankIdx + dr))"

text \<open>The capture loop of the pawn case, \<^verbatim>\<open>for (const df of [-1, 1])\<close>.\<close>

fun pawnCaptures ::
  "board \<Rightarrow> bool \<Rightarrow> int \<Rightarrow> int \<Rightarrow> int list \<Rightarrow> string list \<Rightarrow> string list" where
  "pawnCaptures ps isWhite fileIdx fwdRank [] moves = moves"
| "pawnCaptures ps isWhite fileIdx fwdRank (df # dfs) moves =
     pawnCaptures ps isWhite fileIdx fwdRank dfs
       (if 0 \<le> fileIdx + df \<and> fileIdx + df < 8 then
          (let cap = FILES_at (fileIdx + df) @ RANKS_at fwdRank in
           case ps cap of
             None \<Rightarrow> moves
           | Some capPiece \<Rightarrow> if isWhite \<noteq> isWhitePiece capPiece then moves @ [cap] else moves)
        else moves)"

text \<open>The body of \<^verbatim>\<open>case 'P'\<close>.\<close>

definition pawnMoves :: "board \<Rightarrow> bool \<Rightarrow> int \<Rightarrow> int \<Rightarrow> string list" where
  "pawnMoves ps isWhite fileIdx rankIdx =
     (let dir = (if isWhite then 1 else -1);
          startRank = (if isWhite then 1 else 6);
          fwdRank = rankIdx + dir
      in if 0 \<le> fwdRank \<and> fwdRank < 8 then
           (let fwd = FILES_at fileIdx @ RANKS_at fwdRank;
                moves =
                  (if ps fwd = None then
                     (if rankIdx = startRank then
                        (let fwd2 = FILES_at fileIdx @ RANKS_at (rankIdx + 2 * dir)
                         in if ps fwd2 = None then [fwd, fwd2] else [fwd])
                      else [fwd])
                   else [])
            in pawnCaptures ps isWhite fileIdx fwdRank [-1, 1] moves)
         else [])"

text \<open>The castling part of \<^verbatim>\<open>case 'K'\<close>.\<close>

definition castlingMoves ::
  "state \<Rightarrow> bool \<Rightarrow> char option \<Rightarrow> char option \<Rightarrow> string list \<Rightarrow> string list" where
  "castlingMoves s isWhite file rank moves =
     (if isWhite \<and> rank = Some (CHR ''1'') \<and> file = Some (CHR ''e'') then
        (let moves1 =
               (if CHR ''K'' \<in> set (castling s) \<and> isEmpty (pieces s) ''f1'' \<and> isEmpty (pieces s) ''g1''
                then moves @ [''g1''] else moves)
         in if CHR ''Q'' \<in> set (castling s) \<and> isEmpty (pieces s) ''d1''
                 \<and> isEmpty (pieces s) ''c1'' \<and> isEmpty (pieces s) ''b1''
            then moves1 @ [''c1''] else moves1)
      else if \<not> isWhite \<and> rank = Some (CHR ''8'') \<and> file = Some (CHR ''e'') then
        (let moves1 =
               (if CHR ''k'' \<in> set (castling s) \<and> isEmpty (pieces s) ''f8'' \<and> isEmpty (pieces s) ''g8''
                then moves @ [''g8''] else moves)
         in if CHR ''q'' \<in> set (castling s) \<and> isEmpty (pieces s) ''d8''
                 \<and> isEmpty (pieces s) ''c8'' \<and> isEmpty (pieces s) ''b8''
            then moves1 @ [''c8''] else moves1)
      else moves)"

definition knightOffsets :: "(int \<times> int) list" where
  "knightOffsets = [(-2,-1), (-2,1), (-1,-2), (-1,2), (1,-2), (1,2), (2,-1), (2,1)]"

definition bishopDirs :: "(int \<times> int) list" where
  "bishopDirs = [(-1,-1), (-1,1), (1,-1), (1,1)]"

definition rookDirs :: "(int \<times> int) list" where
  "rookDirs = [(-1,0), (1,0), (0,-1), (0,1)]"

definition queenDirs :: "(int \<times> int) list" where
  "queenDirs = [(-1,-1), (-1,1), (1,-1), (1,1), (-1,0), (1,0), (0,-1), (0,1)]"

definition kingOffsets :: "(int \<times> int) list" where
  "kingOffsets = [(-1,-1), (-1,0), (-1,1), (0,-1), (0,1), (1,-1), (1,0), (1,1)]"

definition getPseudoLegalMoves :: "state \<Rightarrow> string \<Rightarrow> string list option" where
  "getPseudoLegalMoves s square =
     (case pieces s square of
        None \<Rightarrow> Some []
      | Some piece \<Rightarrow>
          (let file = at_index square 0;
               rank = at_index square 1;
               fileIdx = indexOf_opt FILES file;
               rankIdx = indexOf_opt RANKS rank;
               isWhite = isWhitePiece piece;
               type = toUpperCase_char piece
           in if type = CHR ''P'' then Some (pawnMoves (pieces s) isWhite fileIdx rankIdx)
              else if type = CHR ''N'' then
                Some (addMoves (pieces s) isWhite fileIdx rankIdx knightOffsets [])
              else if type = CHR ''B'' then
                addSlides (pieces s) isWhite fileIdx rankIdx bishopDirs []
              else if type = CHR ''R'' then
                addSlides (pieces s) isWhite fileIdx rankIdx rookDirs []
              else if type = CHR ''Q'' then
                addSlides (pieces s) isWhite fileIdx rankIdx queenDirs []
              else if type = CHR ''K'' then
                Some (castlingMoves s isWhite file rank
                        (addMoves (pieces s) isWhite fileIdx rankIdx kingOffsets []))
              else Some []))"

section \<open>Move handling\<close>

definition isCastlingMove :: "state \<Rightarrow> string \<Rightarrow> string \<Rightarrow> bool" where
  "isCastlingMove s from to =
     (case pieces s from of
        None \<Rightarrow> False
      | Some piece \<Rightarrow>
          if toUpperCase_char piece \<noteq> CHR ''K'' then False
          else (let fromFile = indexOf_opt FILES (at_index from 0);
                    toFile = indexOf_opt FILES (at_index to 0)
                in \<bar>toFile - fromFile\<bar> = 2))"

text \<open>
  \<^verbatim>\<open>'f' + rank\<close> where \<^verbatim>\<open>rank = kingFrom[1]\<close>: a missing character is concatenated as
  the text \<^verbatim>\<open>undefined\<close>.
\<close>

definition char_text :: "char option \<Rightarrow> string" where
  "char_text co = (case co of None \<Rightarrow> ''undefined'' | Some c \<Rightarrow> [c])"

text \<open>
  \<^verbatim>\<open>executeCastling\<close>: the king moves, then the piece on the h-file (destination file
  \<open>g\<close>) or on the a-file (any other destination file) of the king's rank is moved to the
  f-file or d-file, then the two castling letters of the side to move are deleted
  (\<^verbatim>\<open>String.replace\<close> with a string pattern deletes the first occurrence only, which is
  \<^const>\<open>remove1\<close>).
\<close>

definition executeCastling :: "state \<Rightarrow> string \<Rightarrow> string \<Rightarrow> state" where
  "executeCastling s kingFrom kingTo =
     (let rank = char_text (at_index kingFrom 1);
          isKingside = (at_index kingTo 0 = Some (CHR ''g''));
          ps1 = (pieces s)(kingTo := pieces s kingFrom);
          ps2 = ps1(kingFrom := None);
          ps3 = (if isKingside
                 then (ps2(''f'' @ rank := ps2 (''h'' @ rank)))(''h'' @ rank := None)
                 else (ps2(''d'' @ rank := ps2 (''a'' @ rank)))(''a'' @ rank := None))
      in s\<lparr> pieces := ps3,
            castling := (if turn s = White
                         then remove1 (CHR ''Q'') (remove1 (CHR ''K'') (castling s))
                         else remove1 (CHR ''q'') (remove1 (CHR ''k'') (castling s))) \<rparr>)"

text \<open>
  The squares \<^verbatim>\<open>rookFrom\<close> and \<^verbatim>\<open>rookTo\<close> that \<^verbatim>\<open>animateCastling\<close> computes, which
  are the squares \<^verbatim>\<open>executeCastling\<close> reads and writes.
\<close>

definition rookFrom :: "string \<Rightarrow> string \<Rightarrow> string" where
  "rookFrom kingFrom kingTo =
     (let rank = char_text (at_index kingFrom 1);
          isKingside = (at_index kingTo 0 = Some (CHR ''g''))
      in if isKingside then ''h'' @ rank else ''a'' @ rank)"

definition rookTo :: "string \<Rightarrow> string \<Rightarrow> string" where
  "rookTo kingFrom kingTo =
     (let rank = char_text (at_index kingFrom 1);
          isKingside = (at_index kingTo 0 = Some (CHR ''g''))
      in if isKingside then ''f'' @ rank else ''d'' @ rank)"

datatype verdict = Correct | Incorrect

text \<open>
  \<^verbatim>\<open>attemptMove\<close> judges the attempt at once and hands the rest of its work to the
  animation (\<^verbatim>\<open>animateMove\<close>, \<^verbatim>\<open>animateCastling\<close>, \<^verbatim>\<open>animateWrongMove\<close>), which
  runs the callback when it ends, or immediately when the page has no piece to animate.
  A \<^typ>\<open>'a option\<close> of \<^const>\<open>None\<close> in the result means that the guard dropped the attempt.
\<close>

datatype callback =
    MoveDone string string string
  | CastleDone string string
  | WrongDone

text \<open>The value of the local constant \<^verbatim>\<open>isCorrect\<close>.\<close>

definition isCorrect :: "string \<Rightarrow> string \<Rightarrow> string \<Rightarrow> bool" where
  "isCorrect best from to =
     (let move = from @ to;
          bestMove = toLowerCase best;
          moveBase = toLowerCase move
      in bestMove = moveBase \<or> (startsWith bestMove moveBase \<and> length bestMove = 5))"

definition attemptMove ::
  "state \<Rightarrow> string \<Rightarrow> string \<Rightarrow> error + ((verdict \<times> callback) option \<times> state)" where
  "attemptMove s from to =
     (if animating s then Inr (None, s)
      else case puzzle s of
        None \<Rightarrow> Inl TypeError
      | Some p \<Rightarrow>
          (let bestMove = toLowerCase (best_move p);
               s1 = s\<lparr> totalAttempts := totalAttempts s + 1 \<rparr>
           in if isCorrect (best_move p) from to then
                (let isCastle = isCastlingMove s1 from to
                 in Inr (Some (Correct,
                               if isCastle then CastleDone from to else MoveDone from to bestMove),
                         s1\<lparr> animating := True \<rparr>))
              else Inr (Some (Incorrect, WrongDone), s1\<lparr> animating := True \<rparr>)))"

text \<open>The closure \<^verbatim>\<open>afterMove\<close>, up to its timer.\<close>

definition afterMove :: "state \<Rightarrow> string \<Rightarrow> string \<Rightarrow> state" where
  "afterMove s from to = s\<lparr> lastMove := Some (from, to), animating := False \<rparr>"

text \<open>The timer that \<^verbatim>\<open>afterMove\<close> sets; it also starts \<^verbatim>\<open>loadContinuation\<close>.\<close>

definition afterMove_timeout :: "state \<Rightarrow> state" where
  "afterMove_timeout s = s\<lparr> solved := True, totalSolved := totalSolved s + 1 \<rparr>"

text \<open>
  A plain move: \<^verbatim>\<open>state.pieces[to] = state.pieces[from]; delete state.pieces[from]\<close>, then
  the promotion piece when the move code has five characters.
\<close>

definition movePiece :: "state \<Rightarrow> string \<Rightarrow> string \<Rightarrow> char option \<Rightarrow> state" where
  "movePiece s from to promo =
     (let ps1 = (pieces s)(to := pieces s from);
          ps2 = ps1(from := None);
          ps3 = (case promo of
                   None \<Rightarrow> ps2
                 | Some promoChar \<Rightarrow>
                     ps2(to \<mapsto> (if turn s = White then toUpperCase_char promoChar
                                  else toLowerCase_char promoChar)))
      in s\<lparr> pieces := ps3 \<rparr>)"

fun runCallback :: "callback \<Rightarrow> state \<Rightarrow> state" where
  "runCallback (MoveDone from to bestMove) s =
     afterMove (movePiece s from to (if length bestMove = 5 then at_index bestMove 4 else None))
       from to"
| "runCallback (CastleDone from to) s = afterMove (executeCastling s from to) from to"
| "runCallback WrongDone s = s\<lparr> animating := False \<rparr>"

text \<open>An attempt together with the end of its animation, no other event in between.\<close>

definition attemptMove_done ::
  "state \<Rightarrow> string \<Rightarrow> string \<Rightarrow> error + (verdict option \<times> state)" where
  "attemptMove_done s from to =
     (case attemptMove s from to of
        Inl e \<Rightarrow> Inl e
      | Inr (None, s') \<Rightarrow> Inr (None, s')
      | Inr (Some (v, cb), s') \<Rightarrow> Inr (Some v, runCallback cb s'))"

text \<open>
  \<^verbatim>\<open>executeMove\<close>, used by the continuation: the state once the animation's callback has
  run. The side to move flips in \<^verbatim>\<open>afterAnim\<close>.
\<close>

definition executeMove :: "state \<Rightarrow> string \<Rightarrow> state" where
  "executeMove s uciMove =
     (let from = take 2 uciMove;
          to = take 2 (drop 2 uciMove);
          promo = (if length uciMove = 5 then at_index uciMove 4 else None);
          isCastle = isCastlingMove s from to;
          s1 = (if isCastle then executeCastling s from to else movePiece s from to promo)
      in s1\<lparr> turn := (if turn s1 = White then Black else White), lastMove := Some (from, to) \<rparr>)"

definition playContinuation :: "state \<Rightarrow> string list \<Rightarrow> state" where
  "playContinuation s moves = (fold (\<lambda>move s'. executeMove s' move) moves (s\<lparr> animating := True \<rparr>))
     \<lparr> animating := False \<rparr>"

text \<open>
  \<^verbatim>\<open>loadPuzzle\<close> once the puzzle has arrived: \<^verbatim>\<open>state.puzzle\<close> is assigned before the
  position is parsed, and the \<^verbatim>\<open>catch\<close> block turns a failure of \<^verbatim>\<open>parseFen\<close> into
  the feedback text \<^verbatim>\<open>Failed to load puzzle\<close>.
\<close>

definition loadPuzzle :: "state \<Rightarrow> puzzle_data \<Rightarrow> state" where
  "loadPuzzle s pz =
     (let s1 = s\<lparr> puzzle := Some pz \<rparr>
      in case parseFen (fen pz) of
           Inl e \<Rightarrow> s1
         | Inr parsed \<Rightarrow>
             s1\<lparr> pieces := parsed_pieces parsed,
                 turn := parsed_turn parsed,
                 castling := parsed_castling parsed,
                 perspective := parsed_turn parsed,
                 solved := False,
                 selectedSquare := None,
                 dragging := None,
                 hasDragged := False,
                 lastMove := None,
                 animating := False \<rparr>)"

section \<open>Input handlers\<close>

definition selectSquare ::
  "state \<Rightarrow> string \<Rightarrow> error + ((verdict \<times> callback) option \<times> state)" where
  "selectSquare s square =
     (if animating s \<or> solved s then Inr (None, s)
      else if \<not> truthy (selectedSquare s) then
        (if isOwnPiece s square then Inr (None, s\<lparr> selectedSquare := Some square \<rparr>)
         else Inr (None, s))
      else if Some square = selectedSquare s then Inr (None, s\<lparr> selectedSquare := None \<rparr>)
      else if isOwnPiece s square then Inr (None, s\<lparr> selectedSquare := Some square \<rparr>)
      else (case selectedSquare s of
              None \<Rightarrow> Inr (None, s)
            | Some from \<Rightarrow> attemptMove (s\<lparr> selectedSquare := None \<rparr>) from square))"

text \<open>
  \<^verbatim>\<open>onMouseDown\<close>; the argument is the square under the pointer, if any, and the pointer
  position.
\<close>

definition onMouseDown :: "state \<Rightarrow> string option \<Rightarrow> int \<Rightarrow> int \<Rightarrow> state" where
  "onMouseDown s square x y =
     (if animating s \<or> solved s then s
      else case square of
        None \<Rightarrow> s
      | Some sq \<Rightarrow>
          if sq = [] then s
          else if \<not> isOwnPiece s sq then s
          else s\<lparr> dragging := Some sq, dragStartX := x, dragStartY := y, hasDragged := False \<rparr>)"

text \<open>
  \<^verbatim>\<open>onMouseMove\<close>, without the ghost image and the hover highlight. For the integer
  pointer positions of the model, \<^verbatim>\<open>Math.sqrt(dx*dx + dy*dy) > DRAG_THRESHOLD\<close> with
  \<^verbatim>\<open>DRAG_THRESHOLD = 3\<close> is \<open>dx * dx + dy * dy > 9\<close>.
\<close>

definition onMouseMove :: "state \<Rightarrow> int \<Rightarrow> int \<Rightarrow> state" where
  "onMouseMove s x y =
     (if \<not> truthy (dragging s) then s
      else (let dx = x - dragStartX s; dy = y - dragStartY s
            in if \<not> hasDragged s \<and> dx * dx + dy * dy > 9
               then s\<lparr> hasDragged := True, selectedSquare := dragging s \<rparr>
               else s))"

text \<open>The string of a value that has been tested to be truthy.\<close>

definition string_of :: "string option \<Rightarrow> string" where
  "string_of so = (case so of None \<Rightarrow> [] | Some s \<Rightarrow> s)"

text \<open>\<^verbatim>\<open>onMouseUp\<close>; the argument is the square under the pointer at release, if any.\<close>

definition onMouseUp ::
  "state \<Rightarrow> string option \<Rightarrow> error + ((verdict \<times> callback) option \<times> state)" where
  "onMouseUp s dropSquare =
     (let wasDragging = dragging s;
          hadDragged = hasDragged s;
          s1 = s\<lparr> dragging := None, hasDragged := False \<rparr>
      in if hadDragged \<and> truthy wasDragging \<and> truthy dropSquare \<and> dropSquare \<noteq> wasDragging then
           attemptMove (s1\<lparr> selectedSquare := None \<rparr>) (string_of wasDragging) (string_of dropSquare)
         else if \<not> hadDragged \<and> truthy wasDragging then selectSquare s1 (string_of wasDragging)
         else if \<not> truthy wasDragging \<and> truthy dropSquare then selectSquare s1 (string_of dropSquare)
         else Inr (None, s1\<lparr> selectedSquare := None \<rparr>))"

text \<open>
  The input events of the page: a square selection, pointer down, pointer motion, pointer
  up (mouse or touch, which call the same handlers), and a direct call of
  \<^verbatim>\<open>attemptMove\<close>.
\<close>

datatype event =
    SelectSquare string
  | MouseDown "string option" int int
  | MouseMove int int
  | MouseUp "string option"
  | AttemptMove string string

fun handle :: "event \<Rightarrow> state \<Rightarrow> error + ((verdict \<times> callback) option \<times> state)" where
  "handle (SelectSquare sq) s = selectSquare s sq"
| "handle (MouseDown sq x y) s = Inr (None, onMouseDown s sq x y)"
| "handle (MouseMove x y) s = Inr (None, onMouseMove s x y)"
| "handle (MouseUp sq) s = onMouseUp s sq"
| "handle (AttemptMove from to) s = attemptMove s from to"

text \<open>
  A sequence of input events with no animation ending in between: the judged attempts are
  collected, and the first error ends the run.
\<close>

fun handle_all ::
  "event list \<Rightarrow> state \<Rightarrow> error + ((verdict \<times> callback) list \<times> state)" where
  "handle_all [] s = Inr ([], s)"
| "handle_all (e # es) s =
     (case handle e s of
        Inl err \<Rightarrow> Inl err
      | Inr (out, s') \<Rightarrow>
          (case handle_all es s' of
             Inl err \<Rightarrow> Inl err
           | Inr (outs, s'') \<Rightarrow>
               Inr ((case out of None \<Rightarrow> outs | Some j \<Rightarrow> j # outs), s'')))"

text \<open>The two handlers that have no guard on \<^verbatim>\<open>animating\<close>.\<close>

fun unguarded :: "event \<Rightarrow> bool" where
  "unguarded (MouseUp sq) = True"
| "unguarded (MouseMove x y) = True"
| "unguarded e = False"

text \<open>The verdict in the result of a handler, if an attempt was judged.\<close>

definition verdict_of :: "error + ((verdict \<times> callback) option \<times> state) \<Rightarrow> verdict option" where
  "verdict_of res = (case res of Inl e \<Rightarrow> None | Inr (out, s) \<Rightarrow> map_option fst out)"

section \<open>Sessions used as examples\<close>

text \<open>The starting position with the best move \<^verbatim>\<open>e2e4\<close>, as loaded by \<^const>\<open>loadPuzzle\<close>.\<close>

definition start_e2e4 :: state where
  "start_e2e4 =
     loadPuzzle initial_state
       \<lparr> fen = ''rnbqkbnr/pppppppp/8/8/8/8/PPPPPPPP/RNBQKBNR w KQkq -'', best_move = ''e2e4'' \<rparr>"

text \<open>A white pawn on e7 with the best move \<^verbatim>\<open>e7e8q\<close>.\<close>

definition promo_e7e8q :: state where
  "promo_e7e8q =
     loadPuzzle initial_state \<lparr> fen = ''8/4P3/8/8/8/8/k7/7K w - -'', best_move = ''e7e8q'' \<rparr>"

text \<open>Kings and rooks on their home squares, all four castling rights.\<close>

definition castle_both :: state where
  "castle_both =
     loadPuzzle initial_state \<lparr> fen = ''r3k2r/8/8/8/8/8/8/R3K2R w KQkq -'', best_move = ''e1g1'' \<rparr>"

text \<open>Two kings and nothing else, with the castling field \<^verbatim>\<open>K\<close>.\<close>

definition kings_with_right :: state where
  "kings_with_right =
     loadPuzzle initial_state \<lparr> fen = ''4k3/8/8/8/8/8/8/4K3 w K -'', best_move = ''e1g1'' \<rparr>"

text \<open>A first row of nine files: the pawn is stored under the key \<^verbatim>\<open>undefined8\<close>.\<close>

definition overlong_row :: state where
  "overlong_row =
     loadPuzzle initial_state \<lparr> fen = ''8P/8/8/8/8/8/8/8 w - -'', best_move = ''a1a2'' \<rparr>"

text \<open>Two kings and nothing else, no castling rights, with the best move \<^verbatim>\<open>e1g1\<close>.\<close>

definition lone_kings :: state where
  "lone_kings =
     loadPuzzle initial_state \<lparr> fen = ''4k3/8/8/8/8/8/8/4K3 w - -'', best_move = ''e1g1'' \<rparr>"

text \<open>
  The session of \<^const>\<open>start_e2e4\<close> after the correct attempt (e2, e4), a click on the own
  pawn d2 before the timer of \<^verbatim>\<open>afterMove\<close> has fired, the timer, and the first statement
  of \<^verbatim>\<open>playContinuation\<close>: the continuation is being played and d2 is selected.
\<close>

definition selected_during_playback :: state where
  "selected_during_playback =
     start_e2e4
       \<lparr> pieces := (pieces start_e2e4)(''e4'' := pieces start_e2e4 ''e2'', ''e2'' := None),
         lastMove := Some (''e2'', ''e4''),
         dragging := None, dragStartX := 0, dragStartY := 0, hasDragged := False,
         totalAttempts := 1, totalSolved := 1,
         solved := True, selectedSquare := Some ''d2'', animating := True \<rparr>"

section \<open>Properties of the string functions\<close>

lemmas case_defs =
  toLowerCase_def toLowerCase_char_def toUpperCase_def toUpperCase_char_def
  lower_letters_def upper_letters_def

lemmas parse_defs =
  parseFen_def parseRanks.simps at_index_def or_default_def RANKS_def FILES_at_def FILES_def

lemmas load_defs = loadPuzzle_def initial_state_def parse_defs

lemma toLowerCase_idem: "toLowerCase (toLowerCase s) = toLowerCase s"
  by (induction s) (simp_all add: case_defs)

lemma startsWith_take: "startsWith s p \<longleftrightarrow> take (length p) s = p"
  by (induction s p rule: startsWith.induct) auto

section \<open>Judging an attempt\<close>

text \<open>
  C3. An attempt that the guard lets through is judged Correct exactly when the code
  \<open>from @ to\<close> equals the best-move code, or the best-move code has five characters of
  which the first four are \<open>from @ to\<close>; otherwise it is judged Incorrect. The squares
  have two characters each and, like the best-move code of the wire format, are in lower
  case.
\<close>

theorem attemptMove_verdict:
  assumes "\<not> animating s" and "puzzle s = Some p"
    and "toLowerCase (best_move p) = best_move p"
    and "length from = 2" and "length to = 2"
    and "toLowerCase (from @ to) = from @ to"
  shows "\<exists>cb s'. attemptMove s from to =
           Inr (Some (if from @ to = best_move p
                         \<or> (length (best_move p) = 5 \<and> take 4 (best_move p) = from @ to)
                      then Correct else Incorrect, cb), s')"
  using assms by (auto simp: attemptMove_def isCorrect_def Let_def startsWith_take)

text \<open>
  Witness for C3: with the best move \<^verbatim>\<open>e7e8q\<close> the attempt (e7, e8) is Correct and the
  attempt (e7, d8) is Incorrect.
\<close>

theorem attemptMove_verdict_witness:
  "(\<exists>cb s'. attemptMove promo_e7e8q ''e7'' ''e8'' = Inr (Some (Correct, cb), s'))
   \<and> (\<exists>cb s'. attemptMove promo_e7e8q ''e7'' ''d8'' = Inr (Some (Incorrect, cb), s'))"
proof -
  have a: "\<not> animating promo_e7e8q"
    by (simp add: promo_e7e8q_def load_defs)
  have p: "puzzle promo_e7e8q
             = Some \<lparr> fen = ''8/4P3/8/8/8/8/k7/7K w - -'', best_move = ''e7e8q'' \<rparr>"
    by (simp add: promo_e7e8q_def load_defs)
  have "\<exists>cb s'. attemptMove promo_e7e8q ''e7'' ''e8'' = Inr (Some (Correct, cb), s')"
    using attemptMove_verdict [OF a p, of "''e7''" "''e8''"] by (simp add: case_defs)
  moreover have "\<exists>cb s'. attemptMove promo_e7e8q ''e7'' ''d8'' = Inr (Some (Incorrect, cb), s')"
    using attemptMove_verdict [OF a p, of "''e7''" "''d8''"] by (simp add: case_defs)
  ultimately show ?thesis by blast
qed

text \<open>
  C8. The verdict does not depend on the letter case of the best-move code: two sessions
  that differ only in best-move codes with the same lower-case form judge every attempt
  alike.
\<close>

theorem attemptMove_case_insensitive:
  assumes "toLowerCase (best_move p) = toLowerCase (best_move p')"
  shows "verdict_of (attemptMove (s\<lparr> puzzle := Some p \<rparr>) from to)
           = verdict_of (attemptMove (s\<lparr> puzzle := Some p' \<rparr>) from to)"
  using assms by (simp add: attemptMove_def isCorrect_def verdict_of_def Let_def)

text \<open>Witness for C8: \<^verbatim>\<open>E2E4\<close> is judged as \<^verbatim>\<open>e2e4\<close> is, here Correct for (e2, e4).\<close>

theorem attemptMove_case_insensitive_witness:
  "verdict_of (attemptMove (start_e2e4\<lparr> puzzle := Some \<lparr> fen = [], best_move = ''E2E4'' \<rparr> \<rparr>)
                 ''e2'' ''e4'')
     = verdict_of (attemptMove (start_e2e4\<lparr> puzzle := Some \<lparr> fen = [], best_move = ''e2e4'' \<rparr> \<rparr>)
                     ''e2'' ''e4'')
   \<and> verdict_of (attemptMove (start_e2e4\<lparr> puzzle := Some \<lparr> fen = [], best_move = ''e2e4'' \<rparr> \<rparr>)
                   ''e2'' ''e4'') = Some Correct"
proof -
  have "toLowerCase (best_move \<lparr> fen = [], best_move = ''E2E4'' \<rparr>)
          = toLowerCase (best_move \<lparr> fen = [], best_move = ''e2e4'' \<rparr>)"
    by (simp add: case_defs)
  from attemptMove_case_insensitive [OF this, of start_e2e4 "''e2''" "''e4''"]
  show ?thesis
    by (simp add: attemptMove_def isCorrect_def verdict_of_def case_defs start_e2e4_def load_defs)
qed

text \<open>
  C5. An attempt judged Incorrect leaves the pieces, the side to move, the castling
  rights and the last move as they were: during the snap-back animation the state differs
  from the state before only in the attempt counter and the animation lock, and once the
  animation has ended only in the attempt counter.
\<close>

theorem attemptMove_incorrect_frame:
  assumes "attemptMove s from to = Inr (Some (Incorrect, cb), s')"
  shows "pieces s' = pieces s \<and> turn s' = turn s \<and> castling s' = castling s
         \<and> lastMove s' = lastMove s
         \<and> s' = s\<lparr> totalAttempts := totalAttempts s + 1, animating := True \<rparr>
         \<and> runCallback cb s' = s\<lparr> totalAttempts := totalAttempts s + 1 \<rparr>"
  using assms by (auto simp: attemptMove_def Let_def split: if_splits option.splits)

text \<open>Witness for C5: the attempt (e2, e3) when the best move is \<^verbatim>\<open>e2e4\<close>.\<close>

theorem attemptMove_incorrect_frame_witness:
  "attemptMove start_e2e4 ''e2'' ''e3''
     = Inr (Some (Incorrect, WrongDone), start_e2e4\<lparr> totalAttempts := 1, animating := True \<rparr>)
   \<and> runCallback WrongDone (start_e2e4\<lparr> totalAttempts := 1, animating := True \<rparr>)
       = start_e2e4\<lparr> totalAttempts := 1 \<rparr>
   \<and> pieces (start_e2e4\<lparr> totalAttempts := 1, animating := True \<rparr>) = pieces start_e2e4"
proof -
  have a: "\<not> animating start_e2e4" and t: "totalAttempts start_e2e4 = 0"
    and p: "puzzle start_e2e4
              = Some \<lparr> fen = ''rnbqkbnr/pppppppp/8/8/8/8/PPPPPPPP/RNBQKBNR w KQkq -'',
                       best_move = ''e2e4'' \<rparr>"
    by (simp_all add: start_e2e4_def load_defs)
  have run: "attemptMove start_e2e4 ''e2'' ''e3''
               = Inr (Some (Incorrect, WrongDone),
                      start_e2e4\<lparr> totalAttempts := 1, animating := True \<rparr>)"
    using a t p by (simp add: attemptMove_def isCorrect_def case_defs)
  from attemptMove_incorrect_frame [OF run] run t show ?thesis
    by (simp del: runCallback.simps)
qed

text \<open>
  C1. After the Correct attempt (e2, e4) on the starting position the pawn stands on e4
  and no longer on e2, the attempt is counted, and the side to move is still White: it
  is White when the animation has ended and when the timer of \<^verbatim>\<open>afterMove\<close> has marked
  the puzzle solved.
\<close>

theorem attemptMove_e2e4_turn_stays_white:
  "\<exists>s'. attemptMove_done start_e2e4 ''e2'' ''e4'' = Inr (Some Correct, s')
        \<and> turn start_e2e4 = White
        \<and> pieces s' ''e4'' = Some (CHR ''P'') \<and> pieces s' ''e2'' = None
        \<and> totalAttempts s' = 1
        \<and> turn s' = White \<and> turn (afterMove_timeout s') = White"
  by (simp add: start_e2e4_def load_defs attemptMove_done_def attemptMove_def isCorrect_def
      case_defs isCastlingMove_def indexOf_opt_def afterMove_def movePiece_def
      afterMove_timeout_def)

text \<open>No attempt changes the side to move, whatever its verdict.\<close>

lemma attemptMove_done_turn:
  assumes "attemptMove_done s from to = Inr (v, s')"
  shows "turn s' = turn s"
  using assms
  by (auto simp: attemptMove_done_def attemptMove_def Let_def afterMove_def movePiece_def
      executeCastling_def split: if_splits option.splits)

text \<open>The move of a continuation does flip it.\<close>

lemma executeMove_turn: "turn (executeMove s uciMove) = (if turn s = White then Black else White)"
  by (simp add: executeMove_def Let_def movePiece_def executeCastling_def)

section \<open>Parsing\<close>

lemma parseRanks_fails_iff:
  "isl (parseRanks rows k ps) \<longleftrightarrow> k < 8 \<and> length rows < 8"
proof (induction rows k ps rule: parseRanks.induct)
  case (1 rows rankIdx pieces)
  show ?case
  proof (cases "rankIdx < 8")
    case False
    then show ?thesis by (subst parseRanks.simps) simp
  next
    case True
    show ?thesis
    proof (cases "rankIdx < length rows")
      case False
      with True show ?thesis by (subst parseRanks.simps) (simp add: at_index_def)
    next
      case inr: True
      then have "at_index rows rankIdx = Some (rows ! rankIdx)" by (simp add: at_index_def)
      from "1.IH" [OF True this] True inr show ?thesis
        by (subst parseRanks.simps) (auto simp: at_index_def)
    qed
  qed
qed

lemma parseFen_fails_iff:
  "(parseFen str = Inl TypeError)
     \<longleftrightarrow> length (split (CHR ''/'') (hd (split (CHR '' '') str))) < 8"
proof -
  let ?rows = "split (CHR ''/'') (hd (split (CHR '' '') str))"
  have "(parseFen str = Inl TypeError) \<longleftrightarrow> isl (parseRanks ?rows 0 Map.empty)"
    by (cases "parseRanks ?rows 0 Map.empty")
      (auto simp: parseFen_def Let_def intro: error.exhaust)
  then show ?thesis by (simp add: parseRanks_fails_iff)
qed

text \<open>
  C2, as the code has it. \<^verbatim>\<open>parseFen\<close> never adds up a row. It fails exactly when the
  piece-placement field has fewer than eight rows, with the \<^verbatim>\<open>TypeError\<close> that
  \<^verbatim>\<open>loadPuzzle\<close> catches: the session goes on with the position it had.
\<close>

theorem parseFen_fails_iff_rows_missing:
  "((parseFen str = Inl TypeError)
      \<longleftrightarrow> length (split (CHR ''/'') (hd (split (CHR '' '') str))) < 8)
   \<and> (parseFen (fen pz) = Inl TypeError \<longrightarrow> loadPuzzle s pz = s\<lparr> puzzle := Some pz \<rparr>)"
proof -
  have "loadPuzzle s pz = s\<lparr> puzzle := Some pz \<rparr>" if "parseFen (fen pz) = Inl TypeError"
    using that by (simp add: loadPuzzle_def)
  then show ?thesis
    using parseFen_fails_iff [of str] by blast
qed

text \<open>Witness for C2: a placement field of seven rows.\<close>

theorem parseFen_fails_iff_rows_missing_witness:
  "parseFen ''8/8/8/8/8/8/8 w - -'' = Inl TypeError
   \<and> loadPuzzle start_e2e4 \<lparr> fen = ''8/8/8/8/8/8/8 w - -'', best_move = ''a1a2'' \<rparr>
       = start_e2e4\<lparr> puzzle := Some \<lparr> fen = ''8/8/8/8/8/8/8 w - -'', best_move = ''a1a2'' \<rparr> \<rparr>"
  using parseFen_fails_iff_rows_missing
    [of "''8/8/8/8/8/8/8 w - -''" "\<lparr> fen = ''8/8/8/8/8/8/8 w - -'', best_move = ''a1a2'' \<rparr>"
        start_e2e4]
  by simp

text \<open>
  Counterexample to C2 as stated: the first row of this position has seven files only,
  and \<^verbatim>\<open>parseFen\<close> returns a board state.
\<close>

theorem parseFen_accepts_short_row:
  "parseFen ''7/8/8/8/8/8/8/8 w - -''
     = Inr \<lparr> parsed_pieces = Map.empty, parsed_turn = White, parsed_castling = [] \<rparr>"
  by (simp add: parse_defs)

section \<open>Squares and coordinates\<close>

lemma indexOf_nonneg_iff: "0 \<le> indexOf xs x \<longleftrightarrow> x \<in> set xs"
  by (induction xs) (auto simp: Let_def)

lemma indexOf_range: "x \<in> set xs \<Longrightarrow> 0 \<le> indexOf xs x \<and> indexOf xs x < int (length xs) \<and> xs ! nat (indexOf xs x) = x"
proof (induction xs)
  case Nil
  then show ?case by simp
next
  case (Cons y ys)
  show ?case
  proof (cases "x = y")
    case True
    then show ?thesis by simp
  next
    case False
    with Cons.prems have "x \<in> set ys" by simp
    from Cons.IH [OF this] False show ?thesis
      by (simp add: Let_def nat_add_distrib)
  qed
qed

lemma distinct_FILES: "distinct FILES" and length_FILES: "length FILES = 8"
  by (simp_all add: FILES_def)

lemma distinct_RANKS: "distinct RANKS" and length_RANKS: "length RANKS = 8"
  by (simp_all add: RANKS_def)

lemma square_name_is_square:
  assumes "0 \<le> f" "f < 8" "0 \<le> r" "r < 8"
  shows "is_square (FILES_at f @ RANKS_at r)"
  using assms by (simp add: is_square_def FILES_at_def RANKS_at_def length_FILES length_RANKS)

lemma square_name_inj:
  assumes "0 \<le> f" "f < 8" "0 \<le> r" "r < 8" "0 \<le> f'" "f' < 8" "0 \<le> r'" "r' < 8"
    and "FILES_at f @ RANKS_at r = FILES_at f' @ RANKS_at r'"
  shows "f = f' \<and> r = r'"
proof -
  from assms have "FILES ! nat f = FILES ! nat f'" "RANKS ! nat r = RANKS ! nat r'"
    by (simp_all add: FILES_at_def RANKS_at_def)
  with assms have n: "nat f = nat f'" "nat r = nat r'"
    by (simp_all add: nth_eq_iff_index_eq distinct_FILES distinct_RANKS length_FILES length_RANKS)
  from n assms(1,3,5,7) show ?thesis by linarith
qed

lemma square_coords:
  assumes "is_square sq"
  shows "0 \<le> indexOf_opt FILES (at_index sq 0) \<and> indexOf_opt FILES (at_index sq 0) < 8
       \<and> 0 \<le> indexOf_opt RANKS (at_index sq (Suc 0)) \<and> indexOf_opt RANKS (at_index sq (Suc 0)) < 8
       \<and> sq = FILES_at (indexOf_opt FILES (at_index sq 0)) @ RANKS_at (indexOf_opt RANKS (at_index sq (Suc 0)))"
proof -
  from assms obtain fc rc where sq: "sq = [fc, rc]" and fc: "fc \<in> set FILES" and rc: "rc \<in> set RANKS"
    by (auto simp: is_square_def split: list.splits)
  from indexOf_range [OF fc] indexOf_range [OF rc] show ?thesis
    by (simp add: sq at_index_def indexOf_opt_def FILES_at_def RANKS_at_def length_FILES length_RANKS)
qed

lemma addMove_pres:
  assumes "\<forall>m\<in>set moves. P m"
    and "0 \<le> f \<and> f < 8 \<and> 0 \<le> r \<and> r < 8 \<Longrightarrow> P (FILES_at f @ RANKS_at r)"
  shows "\<forall>m\<in>set (addMove ps w moves f r). P m"
  using assms by (auto simp: addMove_def Let_def split: option.splits)

lemma addMoves_pres:
  assumes "\<forall>m\<in>set moves. P m"
    and "\<And>df dr. (df, dr) \<in> set ds \<Longrightarrow> 0 \<le> fi + df \<and> fi + df < 8 \<and> 0 \<le> ri + dr \<and> ri + dr < 8
           \<Longrightarrow> P (FILES_at (fi + df) @ RANKS_at (ri + dr))"
  shows "\<forall>m\<in>set (addMoves ps w fi ri ds moves). P m"
  using assms
proof (induction ds arbitrary: moves)
  case Nil
  then show ?case by simp
next
  case (Cons d ds)
  obtain df dr where d: "d = (df, dr)" by (cases d)
  have "\<forall>m\<in>set (addMove ps w moves (fi + df) (ri + dr)). P m"
    using Cons.prems(1) by (rule addMove_pres) (simp add: Cons.prems(2) d)
  then show ?case
    unfolding d addMoves.simps by (rule Cons.IH) (simp add: Cons.prems(2))
qed

text \<open>
  The loop of \<^const>\<open>addSlide_loop\<close> returns for every direction other than \<open>(0, 0)\<close>,
  and every square it adds lies on the ray from its starting point.
\<close>

lemma addSlide_loop_bounded:
  assumes "df \<noteq> 0 \<or> dr \<noteq> 0"
    and "(if 0 < df then 7 - f else if df < 0 then f else 0)
         + (if 0 < dr then 7 - r else if dr < 0 then r else 0) < int n"
  shows "\<exists>ms. addSlide_loop ps w df dr f r moves = Some ms
          \<and> (\<forall>m\<in>set ms. m \<in> set moves
                \<or> (\<exists>k\<ge>0. 0 \<le> f + k * df \<and> f + k * df < 8 \<and> 0 \<le> r + k * dr \<and> r + k * dr < 8
                      \<and> m = FILES_at (f + k * df) @ RANKS_at (r + k * dr)))"
  using assms(2)
proof (induction n arbitrary: f r moves)
  case 0
  then have "\<not> (0 \<le> f \<and> f < 8 \<and> 0 \<le> r \<and> r < 8)"
    by (auto split: if_splits)
  then show ?case by (subst addSlide_loop.simps) auto
next
  case (Suc n)
  show ?case
  proof (cases "0 \<le> f \<and> f < 8 \<and> 0 \<le> r \<and> r < 8")
    case False
    then show ?thesis by (subst addSlide_loop.simps) auto
  next
    case True
    let ?t = "FILES_at f @ RANKS_at r"
    have here: "\<exists>k\<ge>0. 0 \<le> f + k * df \<and> f + k * df < 8 \<and> 0 \<le> r + k * dr \<and> r + k * dr < 8
                  \<and> ?t = FILES_at (f + k * df) @ RANKS_at (r + k * dr)"
      using True by (intro exI [of _ 0]) simp
    show ?thesis
    proof (cases "ps ?t")
      case (Some tp)
      with True here show ?thesis by (subst addSlide_loop.simps) auto
    next
      case None
      have "(if 0 < df then 7 - (f + df) else if df < 0 then f + df else 0)
            + (if 0 < dr then 7 - (r + dr) else if dr < 0 then r + dr else 0) < int n"
        using Suc.prems assms(1) by (auto split: if_splits)
      from Suc.IH [OF this, of "moves @ [?t]"]
      obtain ms where ms: "addSlide_loop ps w df dr (f + df) (r + dr) (moves @ [?t]) = Some ms"
        and all: "\<forall>m\<in>set ms. m \<in> set (moves @ [?t])
                \<or> (\<exists>k\<ge>0. 0 \<le> f + df + k * df \<and> f + df + k * df < 8
                      \<and> 0 \<le> r + dr + k * dr \<and> r + dr + k * dr < 8
                      \<and> m = FILES_at (f + df + k * df) @ RANKS_at (r + dr + k * dr))"
        by blast
      have "\<forall>m\<in>set ms. m \<in> set moves
                \<or> (\<exists>k\<ge>0. 0 \<le> f + k * df \<and> f + k * df < 8 \<and> 0 \<le> r + k * dr \<and> r + k * dr < 8
                      \<and> m = FILES_at (f + k * df) @ RANKS_at (r + k * dr))"
      proof
        fix m assume "m \<in> set ms"
        with all consider "m \<in> set moves" | "m = ?t"
          | k where "0 \<le> k" "0 \<le> f + df + k * df" "f + df + k * df < 8"
              "0 \<le> r + dr + k * dr" "r + dr + k * dr < 8"
              "m = FILES_at (f + df + k * df) @ RANKS_at (r + dr + k * dr)"
          by auto
        then show "m \<in> set moves
                \<or> (\<exists>k\<ge>0. 0 \<le> f + k * df \<and> f + k * df < 8 \<and> 0 \<le> r + k * dr \<and> r + k * dr < 8
                      \<and> m = FILES_at (f + k * df) @ RANKS_at (r + k * dr))"
        proof cases
          case 1
          then show ?thesis by simp
        next
          case 2
          with here show ?thesis by simp
        next
          case (3 k)
          have e: "f + df + k * df = f + (k + 1) * df" "r + dr + k * dr = r + (k + 1) * dr"
            by (simp_all add: algebra_simps)
          from 3 show ?thesis
            unfolding e by (intro disjI2 exI [of _ "k + 1"]) simp
        qed
      qed
      with ms True None show ?thesis by (subst addSlide_loop.simps) simp
    qed
  qed
qed

lemma addSlide_loop_returns:
  assumes "df \<noteq> 0 \<or> dr \<noteq> 0"
  shows "\<exists>ms. addSlide_loop ps w df dr f r moves = Some ms
          \<and> (\<forall>m\<in>set ms. m \<in> set moves
                \<or> (\<exists>k\<ge>0. 0 \<le> f + k * df \<and> f + k * df < 8 \<and> 0 \<le> r + k * dr \<and> r + k * dr < 8
                      \<and> m = FILES_at (f + k * df) @ RANKS_at (r + k * dr)))"
proof -
  let ?M = "(if 0 < df then 7 - f else if df < 0 then f else 0)
         + (if 0 < dr then 7 - r else if dr < 0 then r else 0)"
  have "?M < int (nat (?M + 1))" by simp
  from addSlide_loop_bounded [OF assms this] show ?thesis .
qed

section \<open>The generator stays on the board\<close>

lemma addSlide_squares:
  assumes dir: "df \<noteq> 0 \<or> dr \<noteq> 0"
    and range: "0 \<le> fi" "fi < 8" "0 \<le> ri" "ri < 8"
    and moves: "\<forall>m\<in>set moves. is_square m \<and> m \<noteq> FILES_at fi @ RANKS_at ri"
  shows "\<exists>ms. addSlide ps w fi ri moves df dr = Some ms
          \<and> (\<forall>m\<in>set ms. is_square m \<and> m \<noteq> FILES_at fi @ RANKS_at ri)"
proof -
  from addSlide_loop_returns [OF dir, of ps w "fi + df" "ri + dr" moves]
  obtain ms where ms: "addSlide ps w fi ri moves df dr = Some ms"
    and all: "\<forall>m\<in>set ms. m \<in> set moves
                \<or> (\<exists>k\<ge>0. 0 \<le> fi + df + k * df \<and> fi + df + k * df < 8
                      \<and> 0 \<le> ri + dr + k * dr \<and> ri + dr + k * dr < 8
                      \<and> m = FILES_at (fi + df + k * df) @ RANKS_at (ri + dr + k * dr))"
    unfolding addSlide_def by blast
  have "is_square m \<and> m \<noteq> FILES_at fi @ RANKS_at ri" if "m \<in> set ms" for m
  proof -
    from all that consider "m \<in> set moves"
      | k where "0 \<le> k" "0 \<le> fi + df + k * df" "fi + df + k * df < 8"
          "0 \<le> ri + dr + k * dr" "ri + dr + k * dr < 8"
          "m = FILES_at (fi + df + k * df) @ RANKS_at (ri + dr + k * dr)"
      by auto
    then show ?thesis
    proof cases
      case 1
      with moves show ?thesis by simp
    next
      case (2 k)
      have sq: "is_square m"
        unfolding 2(6) using 2(2-5) by (rule square_name_is_square)
      have "m \<noteq> FILES_at fi @ RANKS_at ri"
      proof
        assume "m = FILES_at fi @ RANKS_at ri"
        with 2(6) have "FILES_at (fi + df + k * df) @ RANKS_at (ri + dr + k * dr)
                          = FILES_at fi @ RANKS_at ri" by simp
        from square_name_inj [OF 2(2-5) range this]
        have "(k + 1) * df = 0" "(k + 1) * dr = 0" by (simp_all add: algebra_simps)
        with \<open>0 \<le> k\<close> have "df = 0 \<and> dr = 0" by simp
        with dir show False by simp
      qed
      with sq show ?thesis ..
    qed
  qed
  with ms show ?thesis by blast
qed

lemma addSlides_squares:
  assumes dirs: "\<forall>(df, dr)\<in>set ds. df \<noteq> 0 \<or> dr \<noteq> 0"
    and range: "0 \<le> fi" "fi < 8" "0 \<le> ri" "ri < 8"
    and moves: "\<forall>m\<in>set moves. is_square m \<and> m \<noteq> FILES_at fi @ RANKS_at ri"
  shows "\<exists>ms. addSlides ps w fi ri ds moves = Some ms
          \<and> (\<forall>m\<in>set ms. is_square m \<and> m \<noteq> FILES_at fi @ RANKS_at ri)"
  using dirs moves
proof (induction ds arbitrary: moves)
  case Nil
  then show ?case by simp
next
  case (Cons d ds)
  obtain df dr where d: "d = (df, dr)" by (cases d)
  with Cons.prems(1) have "df \<noteq> 0 \<or> dr \<noteq> 0" by simp
  from addSlide_squares [OF this range Cons.prems(2), of ps w]
  obtain ms where ms: "addSlide ps w fi ri moves df dr = Some ms"
    and all: "\<forall>m\<in>set ms. is_square m \<and> m \<noteq> FILES_at fi @ RANKS_at ri"
    by blast
  from Cons.prems(1) have "\<forall>(df, dr)\<in>set ds. df \<noteq> 0 \<or> dr \<noteq> 0" by simp
  from Cons.IH [OF this all] ms show ?case by (simp add: d)
qed

lemma addMoves_squares:
  assumes offs: "\<forall>(df, dr)\<in>set ds. df \<noteq> 0 \<or> dr \<noteq> 0"
    and range: "0 \<le> fi" "fi < 8" "0 \<le> ri" "ri < 8"
  shows "\<forall>m\<in>set (addMoves ps w fi ri ds []). is_square m \<and> m \<noteq> FILES_at fi @ RANKS_at ri"
proof (rule addMoves_pres)
  show "\<forall>m\<in>set []. is_square m \<and> m \<noteq> FILES_at fi @ RANKS_at ri" by simp
next
  fix df dr
  assume d: "(df, dr) \<in> set ds"
    and r: "0 \<le> fi + df \<and> fi + df < 8 \<and> 0 \<le> ri + dr \<and> ri + dr < 8"
  from d offs have nz: "df \<noteq> 0 \<or> dr \<noteq> 0" by auto
  have "is_square (FILES_at (fi + df) @ RANKS_at (ri + dr))"
    using r by (intro square_name_is_square) simp_all
  moreover have "FILES_at (fi + df) @ RANKS_at (ri + dr) \<noteq> FILES_at fi @ RANKS_at ri"
  proof
    assume "FILES_at (fi + df) @ RANKS_at (ri + dr) = FILES_at fi @ RANKS_at ri"
    with r range have "fi + df = fi \<and> ri + dr = ri"
      by (intro square_name_inj) simp_all
    with nz show False by simp
  qed
  ultimately show "is_square (FILES_at (fi + df) @ RANKS_at (ri + dr))
     \<and> FILES_at (fi + df) @ RANKS_at (ri + dr) \<noteq> FILES_at fi @ RANKS_at ri" ..
qed

lemma pawnCaptures_pres:
  assumes "\<forall>m\<in>set moves. P m"
    and "\<And>df. df \<in> set dfs \<Longrightarrow> 0 \<le> fi + df \<and> fi + df < 8 \<Longrightarrow> P (FILES_at (fi + df) @ RANKS_at fr)"
  shows "\<forall>m\<in>set (pawnCaptures ps w fi fr dfs moves). P m"
  using assms
proof (induction dfs arbitrary: moves)
  case Nil
  then show ?case by simp
next
  case (Cons df dfs)
  have "\<forall>m\<in>set (if 0 \<le> fi + df \<and> fi + df < 8 then
          (let cap = FILES_at (fi + df) @ RANKS_at fr in
           case ps cap of
             None \<Rightarrow> moves
           | Some capPiece \<Rightarrow> if w \<noteq> isWhitePiece capPiece then moves @ [cap] else moves)
        else moves). P m"
    using Cons.prems by (auto simp: Let_def split: option.splits)
  then show ?case
    unfolding pawnCaptures.simps by (rule Cons.IH) (simp add: Cons.prems(2))
qed

lemma other_rank:
  assumes "0 \<le> f" "f < 8" "0 \<le> r" "r < 8" "0 \<le> f'" "f' < 8" "0 \<le> r'" "r' < 8" "r' \<noteq> r"
  shows "is_square (FILES_at f' @ RANKS_at r') \<and> FILES_at f' @ RANKS_at r' \<noteq> FILES_at f @ RANKS_at r"
  using square_name_is_square [OF assms(5-8)] square_name_inj [OF assms(5-8) assms(1-4)] assms(9)
  by blast

lemma pawn_step_squares:
  assumes range: "0 \<le> fi" "fi < 8" "0 \<le> ri" "ri < 8"
    and dir: "dir \<noteq> 0" and fr: "0 \<le> ri + dir" "ri + dir < 8"
    and two: "ri = start \<Longrightarrow> 0 \<le> ri + 2 * dir \<and> ri + 2 * dir < 8 \<and> 2 * dir \<noteq> 0"
  shows "\<forall>m\<in>set (pawnCaptures ps w fi (ri + dir) [-1, 1]
            (if ps (FILES_at fi @ RANKS_at (ri + dir)) = None then
               (if ri = start then
                  (if ps (FILES_at fi @ RANKS_at (ri + 2 * dir)) = None
                   then [FILES_at fi @ RANKS_at (ri + dir), FILES_at fi @ RANKS_at (ri + 2 * dir)]
                   else [FILES_at fi @ RANKS_at (ri + dir)])
                else [FILES_at fi @ RANKS_at (ri + dir)])
             else [])). is_square m \<and> m \<noteq> FILES_at fi @ RANKS_at ri"
proof (rule pawnCaptures_pres)
  let ?P = "\<lambda>m. is_square m \<and> m \<noteq> FILES_at fi @ RANKS_at ri"
  have fwd: "?P (FILES_at fi @ RANKS_at (ri + dir))"
    using range fr dir by (intro other_rank) simp_all
  have fwd2: "?P (FILES_at fi @ RANKS_at (ri + 2 * dir))" if "ri = start"
    using range two [OF that] by (intro other_rank) simp_all
  show "\<forall>m\<in>set (if ps (FILES_at fi @ RANKS_at (ri + dir)) = None then
               (if ri = start then
                  (if ps (FILES_at fi @ RANKS_at (ri + 2 * dir)) = None
                   then [FILES_at fi @ RANKS_at (ri + dir), FILES_at fi @ RANKS_at (ri + 2 * dir)]
                   else [FILES_at fi @ RANKS_at (ri + dir)])
                else [FILES_at fi @ RANKS_at (ri + dir)])
             else []). ?P m"
    using fwd fwd2 by auto
next
  fix df :: int
  assume "0 \<le> fi + df \<and> fi + df < 8"
  then show "is_square (FILES_at (fi + df) @ RANKS_at (ri + dir))
       \<and> FILES_at (fi + df) @ RANKS_at (ri + dir) \<noteq> FILES_at fi @ RANKS_at ri"
    using range fr dir by (intro other_rank) simp_all
qed

lemma pawnMoves_squares:
  assumes range: "0 \<le> fi" "fi < 8" "0 \<le> ri" "ri < 8"
  shows "\<forall>m\<in>set (pawnMoves ps w fi ri). is_square m \<and> m \<noteq> FILES_at fi @ RANKS_at ri"
proof -
  let ?dir = "if w then 1 else (-1::int)"
  let ?start = "if w then 1 else (6::int)"
  let ?fwd = "FILES_at fi @ RANKS_at (ri + ?dir)"
  let ?fwd2 = "FILES_at fi @ RANKS_at (ri + 2 * ?dir)"
  let ?moves = "if ps ?fwd = None then
                  (if ri = ?start then (if ps ?fwd2 = None then [?fwd, ?fwd2] else [?fwd])
                   else [?fwd])
                else []"
  have eq: "pawnMoves ps w fi ri =
              (if 0 \<le> ri + ?dir \<and> ri + ?dir < 8
               then pawnCaptures ps w fi (ri + ?dir) [-1, 1] ?moves else [])"
    unfolding pawnMoves_def Let_def ..
  show ?thesis
  proof (cases "0 \<le> ri + ?dir \<and> ri + ?dir < 8")
    case False
    show ?thesis unfolding eq if_not_P [OF False] by simp
  next
    case True
    have dir: "?dir \<noteq> 0" by simp
    have two: "0 \<le> ri + 2 * ?dir \<and> ri + 2 * ?dir < 8 \<and> 2 * ?dir \<noteq> 0" if "ri = ?start"
      using that by (cases w) simp_all
    from True have fr: "0 \<le> ri + ?dir" "ri + ?dir < 8" by blast+
    show ?thesis
      unfolding eq if_P [OF True] using range dir fr two by (rule pawn_step_squares)
  qed
qed

lemma castlingMoves_subset:
  "set (castlingMoves s w file rank moves)
     \<subseteq> set moves \<union>
        (if w \<and> rank = Some (CHR ''1'') \<and> file = Some (CHR ''e'') then {''g1'', ''c1''}
         else if \<not> w \<and> rank = Some (CHR ''8'') \<and> file = Some (CHR ''e'') then {''g8'', ''c8''}
         else {})"
  unfolding castlingMoves_def Let_def by (simp only: set_append split: if_split) auto

lemma castlingMoves_squares:
  assumes moves: "\<forall>m\<in>set moves. is_square m \<and> m \<noteq> sq" and sq: "is_square sq"
  shows "\<forall>m\<in>set (castlingMoves s w (at_index sq 0) (at_index sq (Suc 0)) moves).
           is_square m \<and> m \<noteq> sq"
proof -
  from sq obtain fc rc where sq_eq: "sq = [fc, rc]"
    by (auto simp: is_square_def split: list.splits)
  have fl: "at_index sq 0 = Some fc" and rk: "at_index sq (Suc 0) = Some rc"
    by (simp_all add: sq_eq at_index_def)
  have sqs: "is_square ''g1''" "is_square ''c1''" "is_square ''g8''" "is_square ''c8''"
    by (simp_all add: is_square_def FILES_def RANKS_def)
  let ?extra = "if w \<and> Some rc = Some (CHR ''1'') \<and> Some fc = Some (CHR ''e'') then {''g1'', ''c1''}
         else if \<not> w \<and> Some rc = Some (CHR ''8'') \<and> Some fc = Some (CHR ''e'') then {''g8'', ''c8''}
         else {}"
  have extra: "\<forall>m\<in>?extra. is_square m \<and> m \<noteq> sq"
    using sqs by (simp add: sq_eq)
  have "set (castlingMoves s w (Some fc) (Some rc) moves) \<subseteq> set moves \<union> ?extra"
    by (rule castlingMoves_subset)
  with moves extra show ?thesis
    unfolding fl rk by blast
qed

text \<open>
  C10. For every session state and every well-formed square, the move generator returns,
  and every destination it returns is a well-formed square other than the origin.
\<close>

theorem generated_squares:
  assumes "is_square sq"
  shows "\<exists>ms. getPseudoLegalMoves s sq = Some ms \<and> (\<forall>m\<in>set ms. is_square m \<and> m \<noteq> sq)"
proof (cases "pieces s sq")
  case None
  then show ?thesis by (simp add: getPseudoLegalMoves_def)
next
  case (Some piece)
  let ?fi = "indexOf_opt FILES (at_index sq 0)"
  let ?ri = "indexOf_opt RANKS (at_index sq (Suc 0))"
  let ?w = "isWhitePiece piece"
  from square_coords [OF assms]
  have range: "0 \<le> ?fi" "?fi < 8" "0 \<le> ?ri" "?ri < 8" and sq: "sq = FILES_at ?fi @ RANKS_at ?ri"
    by simp_all
  have pawn: "\<forall>m\<in>set (pawnMoves (pieces s) ?w ?fi ?ri). is_square m \<and> m \<noteq> sq"
    using pawnMoves_squares [OF range] sq by simp
  have knight: "\<forall>m\<in>set (addMoves (pieces s) ?w ?fi ?ri knightOffsets []). is_square m \<and> m \<noteq> sq"
    using addMoves_squares [OF _ range, of knightOffsets] sq by (simp add: knightOffsets_def)
  have king: "\<forall>m\<in>set (addMoves (pieces s) ?w ?fi ?ri kingOffsets []). is_square m \<and> m \<noteq> sq"
    using addMoves_squares [OF _ range, of kingOffsets] sq by (simp add: kingOffsets_def)
  have castle: "\<forall>m\<in>set (castlingMoves s ?w (at_index sq 0) (at_index sq (Suc 0))
                   (addMoves (pieces s) ?w ?fi ?ri kingOffsets [])). is_square m \<and> m \<noteq> sq"
    using king assms by (rule castlingMoves_squares)
  have slides: "\<exists>ms. addSlides (pieces s) ?w ?fi ?ri ds [] = Some ms
                  \<and> (\<forall>m\<in>set ms. is_square m \<and> m \<noteq> sq)"
    if "\<forall>(df, dr)\<in>set ds. df \<noteq> 0 \<or> dr \<noteq> 0" for ds
    using addSlides_squares [OF that range, of "[]" "pieces s" ?w] sq by simp
  have bishop: "\<exists>ms. addSlides (pieces s) ?w ?fi ?ri bishopDirs [] = Some ms
                  \<and> (\<forall>m\<in>set ms. is_square m \<and> m \<noteq> sq)"
    by (rule slides) (simp add: bishopDirs_def)
  have rook: "\<exists>ms. addSlides (pieces s) ?w ?fi ?ri rookDirs [] = Some ms
                  \<and> (\<forall>m\<in>set ms. is_square m \<and> m \<noteq> sq)"
    by (rule slides) (simp add: rookDirs_def)
  have queen: "\<exists>ms. addSlides (pieces s) ?w ?fi ?ri queenDirs [] = Some ms
                  \<and> (\<forall>m\<in>set ms. is_square m \<and> m \<noteq> sq)"
    by (rule slides) (simp add: queenDirs_def)
  let ?type = "toUpperCase_char piece"
  have unfold: "getPseudoLegalMoves s sq =
     (if ?type = CHR ''P'' then Some (pawnMoves (pieces s) ?w ?fi ?ri)
      else if ?type = CHR ''N'' then Some (addMoves (pieces s) ?w ?fi ?ri knightOffsets [])
      else if ?type = CHR ''B'' then addSlides (pieces s) ?w ?fi ?ri bishopDirs []
      else if ?type = CHR ''R'' then addSlides (pieces s) ?w ?fi ?ri rookDirs []
      else if ?type = CHR ''Q'' then addSlides (pieces s) ?w ?fi ?ri queenDirs []
      else if ?type = CHR ''K'' then
        Some (castlingMoves s ?w (at_index sq 0) (at_index sq (Suc 0))
                (addMoves (pieces s) ?w ?fi ?ri kingOffsets []))
      else Some [])"
    by (simp add: getPseudoLegalMoves_def Some Let_def)
  consider "?type = CHR ''P''" | "?type = CHR ''N''" | "?type = CHR ''B''" | "?type = CHR ''R''"
    | "?type = CHR ''Q''" | "?type = CHR ''K''"
    | "?type \<notin> {CHR ''P'', CHR ''N'', CHR ''B'', CHR ''R'', CHR ''Q'', CHR ''K''}"
    by blast
  then show ?thesis
  proof cases
    case 1
    with pawn show ?thesis unfolding unfold by simp
  next
    case 2
    with knight show ?thesis unfolding unfold by simp
  next
    case 3
    with bishop show ?thesis unfolding unfold by simp
  next
    case 4
    with rook show ?thesis unfolding unfold by simp
  next
    case 5
    with queen show ?thesis unfolding unfold by simp
  next
    case 6
    with castle show ?thesis unfolding unfold by simp
  next
    case 7
    then show ?thesis unfolding unfold by simp
  qed
qed

section \<open>Castling destinations\<close>

lemmas generator_defs =
  getPseudoLegalMoves_def castlingMoves_def isEmpty_def isWhitePiece_def at_index_def Let_def

lemma white_kingside:
  assumes "pieces s ''e1'' = Some (CHR ''K'')" and "CHR ''K'' \<in> set (castling s)"
    and "pieces s ''f1'' = None" and "pieces s ''g1'' = None"
  shows "\<exists>ms. getPseudoLegalMoves s ''e1'' = Some ms \<and> ''g1'' \<in> set ms"
  using assms by (simp add: generator_defs case_defs)

lemma white_queenside:
  assumes "pieces s ''e1'' = Some (CHR ''K'')" and "CHR ''Q'' \<in> set (castling s)"
    and "pieces s ''d1'' = None" and "pieces s ''c1'' = None" and "pieces s ''b1'' = None"
  shows "\<exists>ms. getPseudoLegalMoves s ''e1'' = Some ms \<and> ''c1'' \<in> set ms"
  using assms by (simp add: generator_defs case_defs)

lemma black_kingside:
  assumes "pieces s ''e8'' = Some (CHR ''k'')" and "CHR ''k'' \<in> set (castling s)"
    and "pieces s ''f8'' = None" and "pieces s ''g8'' = None"
  shows "\<exists>ms. getPseudoLegalMoves s ''e8'' = Some ms \<and> ''g8'' \<in> set ms"
  using assms by (simp add: generator_defs case_defs)

lemma black_queenside:
  assumes "pieces s ''e8'' = Some (CHR ''k'')" and "CHR ''q'' \<in> set (castling s)"
    and "pieces s ''d8'' = None" and "pieces s ''c8'' = None" and "pieces s ''b8'' = None"
  shows "\<exists>ms. getPseudoLegalMoves s ''e8'' = Some ms \<and> ''c8'' \<in> set ms"
  using assms by (simp add: generator_defs case_defs)

text \<open>
  C7. When a king stands on its home square (the white king on e1, the black king on e8),
  the castling string holds the letter of a castling right and the squares between king
  and rook are empty, the generator returns the two-file destination of that right.
\<close>

theorem castling_destinations_generated:
  "(pieces s ''e1'' = Some (CHR ''K'') \<and> CHR ''K'' \<in> set (castling s)
      \<and> pieces s ''f1'' = None \<and> pieces s ''g1'' = None
    \<longrightarrow> (\<exists>ms. getPseudoLegalMoves s ''e1'' = Some ms \<and> ''g1'' \<in> set ms))
   \<and> (pieces s ''e1'' = Some (CHR ''K'') \<and> CHR ''Q'' \<in> set (castling s)
      \<and> pieces s ''d1'' = None \<and> pieces s ''c1'' = None \<and> pieces s ''b1'' = None
    \<longrightarrow> (\<exists>ms. getPseudoLegalMoves s ''e1'' = Some ms \<and> ''c1'' \<in> set ms))
   \<and> (pieces s ''e8'' = Some (CHR ''k'') \<and> CHR ''k'' \<in> set (castling s)
      \<and> pieces s ''f8'' = None \<and> pieces s ''g8'' = None
    \<longrightarrow> (\<exists>ms. getPseudoLegalMoves s ''e8'' = Some ms \<and> ''g8'' \<in> set ms))
   \<and> (pieces s ''e8'' = Some (CHR ''k'') \<and> CHR ''q'' \<in> set (castling s)
      \<and> pieces s ''d8'' = None \<and> pieces s ''c8'' = None \<and> pieces s ''b8'' = None
    \<longrightarrow> (\<exists>ms. getPseudoLegalMoves s ''e8'' = Some ms \<and> ''c8'' \<in> set ms))"
  using white_kingside [of s] white_queenside [of s] black_kingside [of s] black_queenside [of s]
  by blast

lemma castle_both_fields:
  "pieces castle_both ''e1'' = Some (CHR ''K'')" "castling castle_both = ''KQkq''"
  "pieces castle_both ''f1'' = None" "pieces castle_both ''g1'' = None"
  "pieces castle_both ''d1'' = None" "pieces castle_both ''c1'' = None"
  "pieces castle_both ''b1'' = None" "pieces castle_both ''h1'' = Some (CHR ''R'')"
  "pieces castle_both ''a1'' = Some (CHR ''R'')" "turn castle_both = White"
  "pieces castle_both ''e8'' = Some (CHR ''k'')" "pieces castle_both ''h8'' = Some (CHR ''r'')"
  "pieces castle_both ''f8'' = None" "pieces castle_both ''g8'' = None"
  by (simp_all add: castle_both_def load_defs)

text \<open>
  Witness for C7: on the position \<^verbatim>\<open>r3k2r/8/8/8/8/8/8/R3K2R w KQkq -\<close> the generator
  returns both g1 and c1 for the king on e1.
\<close>

theorem castling_destinations_generated_witness:
  "\<exists>ms. getPseudoLegalMoves castle_both ''e1'' = Some ms \<and> ''g1'' \<in> set ms \<and> ''c1'' \<in> set ms"
  using castling_destinations_generated [of castle_both]
  by (auto simp: castle_both_fields)

text \<open>The same list computed.\<close>

lemma castle_both_king_moves:
  "getPseudoLegalMoves castle_both ''e1''
     = Some [''d1'', ''d2'', ''e2'', ''f1'', ''f2'', ''g1'', ''c1'']"
  by code_simp

lemma castle_both_rook_moves:
  "getPseudoLegalMoves castle_both ''a1''
     = Some [''b1'', ''c1'', ''d1'', ''a2'', ''a3'', ''a4'', ''a5'', ''a6'', ''a7'', ''a8'']"
  by code_simp

text \<open>
  Witness for C10: the rook on a1 of the same position; its ten destinations are listed
  in \<open>castle_both_rook_moves\<close>.
\<close>

theorem generated_squares_witness:
  "is_square ''a1''
   \<and> (\<exists>ms. getPseudoLegalMoves castle_both ''a1'' = Some ms
          \<and> (\<forall>m\<in>set ms. is_square m \<and> m \<noteq> ''a1''))"
  using generated_squares [of "''a1''" castle_both]
  by (simp add: is_square_def FILES_def RANKS_def)

text \<open>
  The origin has to be a well-formed square: from the key that an overlong row leaves
  behind, the pawn rule builds a destination that is no square.
\<close>

lemma ill_formed_origin:
  "pieces overlong_row ''undefined8'' = Some (CHR ''P'')
   \<and> getPseudoLegalMoves overlong_row ''undefined8'' = Some [''undefined1'']"
  by (simp add: overlong_row_def load_defs getPseudoLegalMoves_def pawnMoves_def
      isWhitePiece_def case_defs indexOf_opt_def RANKS_at_def Let_def)

text \<open>
  C9. The generator does not look at the corner square: with the white king on e1, the
  letter \<open>K\<close> in the castling string and f1, g1 and h1 empty, it still returns g1.
\<close>

theorem castling_destination_without_rook:
  assumes "pieces s ''e1'' = Some (CHR ''K'')" and "CHR ''K'' \<in> set (castling s)"
    and "pieces s ''f1'' = None" and "pieces s ''g1'' = None" and "pieces s ''h1'' = None"
  shows "\<exists>ms. getPseudoLegalMoves s ''e1'' = Some ms \<and> ''g1'' \<in> set ms"
  using assms(1-4) by (rule white_kingside)

lemma kings_with_right_fields:
  "pieces kings_with_right ''e1'' = Some (CHR ''K'')" "castling kings_with_right = ''K''"
  "pieces kings_with_right ''a1'' = None" "pieces kings_with_right ''b1'' = None"
  "pieces kings_with_right ''c1'' = None" "pieces kings_with_right ''d1'' = None"
  "pieces kings_with_right ''f1'' = None" "pieces kings_with_right ''g1'' = None"
  "pieces kings_with_right ''h1'' = None"
  by (simp_all add: kings_with_right_def load_defs)

text \<open>
  Witness for C9: the position \<^verbatim>\<open>4k3/8/8/8/8/8/8/4K3 w K -\<close>, whose first rank holds the
  king and nothing else.
\<close>

theorem castling_destination_without_rook_witness:
  "pieces kings_with_right ''e1'' = Some (CHR ''K'')
   \<and> CHR ''K'' \<in> set (castling kings_with_right)
   \<and> pieces kings_with_right ''a1'' = None \<and> pieces kings_with_right ''b1'' = None
   \<and> pieces kings_with_right ''c1'' = None \<and> pieces kings_with_right ''d1'' = None
   \<and> pieces kings_with_right ''f1'' = None \<and> pieces kings_with_right ''g1'' = None
   \<and> pieces kings_with_right ''h1'' = None
   \<and> (\<exists>ms. getPseudoLegalMoves kings_with_right ''e1'' = Some ms \<and> ''g1'' \<in> set ms)"
  using castling_destination_without_rook [of kings_with_right]
  by (simp add: kings_with_right_fields)

section \<open>Castling as a state transition\<close>

lemma set_remove1_twice:
  assumes "distinct xs"
  shows "set (remove1 b (remove1 a xs)) = set xs - {a, b}"
  using assms by (auto simp: set_remove1_eq)

lemma castling_king_file:
  assumes fc: "fc \<in> set FILES"
    and tc: "tc = CHR ''g'' \<or> tc = CHR ''c''"
    and two: "\<bar>indexOf FILES tc - indexOf FILES fc\<bar> = 2"
  shows "fc = CHR ''e'' \<or> (fc = CHR ''a'' \<and> tc = CHR ''c'')"
  using assms by (auto simp: FILES_def)

text \<open>
  C4, as the code has it. Let a king of the side to move go two files, between
  well-formed squares, to the g-file or the c-file, let the corner square of its rank (the
  h-file square for the g-file, the a-file square for the c-file) hold a rook of the side
  to move, and let no letter occur twice in the castling string. Then
  \<^verbatim>\<open>executeCastling\<close>, which both \<^verbatim>\<open>attemptMove\<close> and \<^verbatim>\<open>executeMove\<close> run for such a
  move, puts the king on its destination and that rook on the f-file or d-file square of
  the rank, empties the two squares they came from, leaves every other square alone,
  deletes both castling letters of the side to move and keeps all other letters.
\<close>

theorem castling_transition:
  assumes sq_from: "is_square from" and sq_to: "is_square to"
    and castle: "isCastlingMove s from to"
    and own: "isOwnPiece s from"
    and dest: "at_index to 0 = Some (CHR ''g'') \<or> at_index to 0 = Some (CHR ''c'')"
    and rook: "pieces s (rookFrom from to) = Some (if turn s = White then CHR ''R'' else CHR ''r'')"
    and dist: "distinct (castling s)"
  shows "pieces (executeCastling s from to) to = pieces s from
       \<and> pieces (executeCastling s from to) from = None
       \<and> pieces (executeCastling s from to) (rookTo from to) = pieces s (rookFrom from to)
       \<and> pieces (executeCastling s from to) (rookFrom from to) = None
       \<and> (\<forall>sq. sq \<notin> {from, to, rookFrom from to, rookTo from to}
            \<longrightarrow> pieces (executeCastling s from to) sq = pieces s sq)
       \<and> set (castling (executeCastling s from to))
           = set (castling s) - (if turn s = White then {CHR ''K'', CHR ''Q''}
                                 else {CHR ''k'', CHR ''q''})
       \<and> turn (executeCastling s from to) = turn s"
proof -
  from sq_from obtain fc rc where f: "from = [fc, rc]" and fc: "fc \<in> set FILES"
    by (auto simp: is_square_def split: list.splits)
  from sq_to obtain tc trc where t: "to = [tc, trc]"
    by (auto simp: is_square_def split: list.splits)
  from dest have tc: "tc = CHR ''g'' \<or> tc = CHR ''c''"
    by (simp add: t at_index_def)
  from castle obtain k where k: "pieces s from = Some k" "toUpperCase_char k = CHR ''K''"
    and two: "\<bar>indexOf FILES tc - indexOf FILES fc\<bar> = 2"
    by (auto simp: isCastlingMove_def f t at_index_def indexOf_opt_def Let_def
        split: option.splits if_splits)
  have e: "fc = CHR ''e''"
  proof (rule ccontr)
    assume "fc \<noteq> CHR ''e''"
    with castling_king_file [OF fc tc two] have "fc = CHR ''a''" "tc = CHR ''c''" by simp_all
    then have "rookFrom from to = from"
      by (simp add: rookFrom_def f t at_index_def char_text_def)
    with rook k(1) have "k = CHR ''R'' \<or> k = CHR ''r''" by (auto split: if_splits)
    with k(2) show False by (auto simp: case_defs)
  qed
  have cast: "set (castling (executeCastling s from to))
           = set (castling s) - (if turn s = White then {CHR ''K'', CHR ''Q''}
                                 else {CHR ''k'', CHR ''q''})"
    using dist by (auto simp: executeCastling_def Let_def set_remove1_twice)
  have trn: "turn (executeCastling s from to) = turn s"
    by (simp add: executeCastling_def Let_def)
  have pcs: "pieces (executeCastling s from to) to = pieces s from
       \<and> pieces (executeCastling s from to) from = None
       \<and> pieces (executeCastling s from to) (rookTo from to) = pieces s (rookFrom from to)
       \<and> pieces (executeCastling s from to) (rookFrom from to) = None
       \<and> (\<forall>sq. sq \<notin> {from, to, rookFrom from to, rookTo from to}
            \<longrightarrow> pieces (executeCastling s from to) sq = pieces s sq)"
    using tc
  proof
    assume g: "tc = CHR ''g''"
    show ?thesis
      by (simp add: executeCastling_def rookFrom_def rookTo_def f t e g at_index_def
          char_text_def Let_def)
  next
    assume c: "tc = CHR ''c''"
    show ?thesis
      by (simp add: executeCastling_def rookFrom_def rookTo_def f t e c at_index_def
          char_text_def Let_def)
  qed
  from pcs cast trn show ?thesis by blast
qed

text \<open>
  The two callers: \<^verbatim>\<open>executeMove\<close> adds the flip of the side to move and the last move,
  the callback of a Correct attempt adds the last move and releases the animation lock.
\<close>

lemma executeMove_castle:
  assumes "length from = 2" and "length to = 2" and "isCastlingMove s from to"
  shows "executeMove s (from @ to)
           = (executeCastling s from to)
               \<lparr> turn := (if turn s = White then Black else White), lastMove := Some (from, to) \<rparr>"
  using assms by (simp add: executeMove_def Let_def executeCastling_def)

lemma attemptMove_castle:
  assumes "attemptMove s from to = Inr (Some (Correct, cb), s')" and "isCastlingMove s from to"
  shows "s' = s\<lparr> totalAttempts := totalAttempts s + 1, animating := True \<rparr>
       \<and> runCallback cb s' = afterMove (executeCastling s' from to) from to"
  using assms
  by (auto simp: attemptMove_def Let_def isCastlingMove_def split: if_splits option.splits)

lemma lone_kings_fields:
  "pieces lone_kings ''e1'' = Some (CHR ''K'')" "pieces lone_kings ''f1'' = None"
  "pieces lone_kings ''g1'' = None" "pieces lone_kings ''h1'' = None"
  "turn lone_kings = White" "castling lone_kings = []" "animating lone_kings = False"
  "puzzle lone_kings = Some \<lparr> fen = ''4k3/8/8/8/8/8/8/4K3 w - -'', best_move = ''e1g1'' \<rparr>"
  by (simp_all add: lone_kings_def load_defs)

text \<open>
  Counterexample to C4 as stated: with the two kings alone on the board the attempt
  (e1, g1) is Correct for the best move \<^verbatim>\<open>e1g1\<close>, the king moves two files, and the
  transition relocates no rook: h1 was empty and f1 is empty afterwards.
\<close>

theorem castling_without_rook_relocates_none:
  "verdict_of (attemptMove lone_kings ''e1'' ''g1'') = Some Correct
   \<and> isCastlingMove lone_kings ''e1'' ''g1''
   \<and> pieces lone_kings ''h1'' = None
   \<and> pieces (executeCastling lone_kings ''e1'' ''g1'') ''g1'' = Some (CHR ''K'')
   \<and> pieces (executeCastling lone_kings ''e1'' ''g1'') ''f1'' = None
   \<and> pieces (executeMove lone_kings ''e1g1'') ''f1'' = None"
  by (simp add: lone_kings_fields verdict_of_def attemptMove_def isCorrect_def isCastlingMove_def
      executeCastling_def executeMove_def case_defs at_index_def indexOf_opt_def FILES_def
      char_text_def Let_def)

text \<open>
  Witness for C4: white castles kingside on \<^verbatim>\<open>r3k2r/8/8/8/8/8/8/R3K2R w KQkq -\<close>; the
  rook goes from h1 to f1 and the castling string keeps \<open>k\<close> and \<open>q\<close>.
\<close>

theorem castling_transition_witness:
  "is_square ''e1'' \<and> is_square ''g1'' \<and> isCastlingMove castle_both ''e1'' ''g1''
   \<and> isOwnPiece castle_both ''e1'' \<and> rookFrom ''e1'' ''g1'' = ''h1'' \<and> rookTo ''e1'' ''g1'' = ''f1''
   \<and> pieces castle_both ''h1'' = Some (CHR ''R'') \<and> castling castle_both = ''KQkq''
   \<and> pieces (executeCastling castle_both ''e1'' ''g1'') ''g1'' = Some (CHR ''K'')
   \<and> pieces (executeCastling castle_both ''e1'' ''g1'') ''e1'' = None
   \<and> pieces (executeCastling castle_both ''e1'' ''g1'') ''f1'' = Some (CHR ''R'')
   \<and> pieces (executeCastling castle_both ''e1'' ''g1'') ''h1'' = None
   \<and> set (castling (executeCastling castle_both ''e1'' ''g1'')) = {CHR ''k'', CHR ''q''}"
proof -
  have sq: "is_square ''e1''" "is_square ''g1''"
    by (simp_all add: is_square_def FILES_def RANKS_def)
  have castle: "isCastlingMove castle_both ''e1'' ''g1''"
    by (simp add: isCastlingMove_def castle_both_fields case_defs at_index_def indexOf_opt_def
        FILES_def)
  have own: "isOwnPiece castle_both ''e1''"
    by (simp add: isOwnPiece_def isWhitePiece_def castle_both_fields case_defs)
  have rf: "rookFrom ''e1'' ''g1'' = ''h1''" and rt: "rookTo ''e1'' ''g1'' = ''f1''"
    by (simp_all add: rookFrom_def rookTo_def at_index_def char_text_def)
  have dest: "at_index ''g1'' 0 = Some (CHR ''g'') \<or> at_index ''g1'' 0 = Some (CHR ''c'')"
    by (simp add: at_index_def)
  have rook: "pieces castle_both (rookFrom ''e1'' ''g1'')
                = Some (if turn castle_both = White then CHR ''R'' else CHR ''r'')"
    by (simp add: rf castle_both_fields)
  have dist: "distinct (castling castle_both)"
    by (simp add: castle_both_fields)
  from castling_transition [OF sq castle own dest rook dist] sq castle own rf rt
  show ?thesis
    by (auto simp: castle_both_fields)
qed

text \<open>
  The letters deleted are those of \<^verbatim>\<open>state.turn\<close>, not of the king that moves. After
  the Correct attempt (e1, g1) the side to move is still White, so when the continuation
  castles for Black with \<^verbatim>\<open>e8g8\<close> the black letters stay in the castling string.
\<close>

lemma continuation_castle_revokes_wrong_side:
  "\<exists>s'. attemptMove_done castle_both ''e1'' ''g1'' = Inr (Some Correct, s')
        \<and> turn s' = White \<and> castling s' = ''kq''
        \<and> pieces (executeMove s' ''e8g8'') ''g8'' = Some (CHR ''k'')
        \<and> pieces (executeMove s' ''e8g8'') ''f8'' = Some (CHR ''r'')
        \<and> castling (executeMove s' ''e8g8'') = ''kq''"
  by (simp add: castle_both_def load_defs attemptMove_done_def attemptMove_def isCorrect_def
      isCastlingMove_def executeCastling_def executeMove_def afterMove_def case_defs
      indexOf_opt_def char_text_def Let_def)

text \<open>
  A letter that occurs twice is deleted once.
\<close>

lemma repeated_letter_survives:
  "castling (executeCastling (castle_both\<lparr> castling := ''KKQ'' \<rparr>) ''e1'' ''g1'') = ''K''"
  by (simp add: executeCastling_def castle_both_fields Let_def)

section \<open>Input while an animation runs\<close>

text \<open>
  The fields of the example session that the handlers read.
\<close>

lemma start_fields:
  "animating start_e2e4 = False" "solved start_e2e4 = False" "turn start_e2e4 = White"
  "puzzle start_e2e4 = Some \<lparr> fen = ''rnbqkbnr/pppppppp/8/8/8/8/PPPPPPPP/RNBQKBNR w KQkq -'', best_move = ''e2e4'' \<rparr>"
  "pieces start_e2e4 ''e2'' = Some (CHR ''P'')" "pieces start_e2e4 ''d2'' = Some (CHR ''P'')"
  "pieces start_e2e4 ''e4'' = None"
  "selectedSquare start_e2e4 = None" "dragging start_e2e4 = None" "hasDragged start_e2e4 = False"
  "totalAttempts start_e2e4 = 0" "totalSolved start_e2e4 = 0"
  by (simp_all add: start_e2e4_def load_defs)

lemmas handler_defs = selectSquare_def onMouseDown_def onMouseUp_def onMouseMove_def
  truthy_def string_of_def isOwnPiece_def isWhitePiece_def

text \<open>
  How \<^const>\<open>selected_during_playback\<close> comes about: the user clicks e2 and then e4, which
  is the Correct attempt; the animation ends; the user clicks d2 while the puzzle is not
  yet marked solved; the timer fires and the continuation starts.
\<close>

lemma playback_trace_attempt:
  "handle_all [MouseDown (Some ''e2'') 0 0, MouseUp (Some ''e2''),
               MouseDown (Some ''e4'') 0 0, MouseUp (Some ''e4'')] start_e2e4
     = Inr ([(Correct, MoveDone ''e2'' ''e4'' ''e2e4'')],
            start_e2e4\<lparr> dragging := None, dragStartX := 0, dragStartY := 0, hasDragged := False,
                        selectedSquare := None, totalAttempts := 1, animating := True \<rparr>)"
  by (simp add: handler_defs start_fields attemptMove_def isCorrect_def case_defs isCastlingMove_def)

lemma playback_trace_click:
  "handle_all [MouseDown (Some ''d2'') 0 0, MouseUp (Some ''d2'')]
     (runCallback (MoveDone ''e2'' ''e4'' ''e2e4'')
        (start_e2e4\<lparr> dragging := None, dragStartX := 0, dragStartY := 0, hasDragged := False,
                        selectedSquare := None, totalAttempts := 1, animating := True \<rparr>))
   = Inr ([], start_e2e4
       \<lparr> pieces := (pieces start_e2e4)(''e4'' := pieces start_e2e4 ''e2'', ''e2'' := None),
         lastMove := Some (''e2'', ''e4''),
         dragging := None, dragStartX := 0, dragStartY := 0, hasDragged := False,
         totalAttempts := 1, selectedSquare := Some ''d2'', animating := False \<rparr>)"
  by (simp add: handler_defs start_fields afterMove_def movePiece_def case_defs)

lemma playback_trace_timer:
  "(afterMove_timeout (start_e2e4
       \<lparr> pieces := (pieces start_e2e4)(''e4'' := pieces start_e2e4 ''e2'', ''e2'' := None),
         lastMove := Some (''e2'', ''e4''),
         dragging := None, dragStartX := 0, dragStartY := 0, hasDragged := False,
         totalAttempts := 1, selectedSquare := Some ''d2'', animating := False \<rparr>))
     \<lparr> animating := True \<rparr> = selected_during_playback"
  by (simp add: afterMove_timeout_def selected_during_playback_def start_fields)

text \<open>
  One input event while the animation lock is set.
\<close>

lemma handle_while_animating:
  assumes "animating s"
  shows "\<exists>s'. handle e s = Inr (None, s') \<and> animating s'
          \<and> pieces s' = pieces s \<and> turn s' = turn s \<and> castling s' = castling s
          \<and> lastMove s' = lastMove s \<and> totalAttempts s' = totalAttempts s
          \<and> totalSolved s' = totalSolved s \<and> solved s' = solved s \<and> puzzle s' = puzzle s
          \<and> (\<not> unguarded e \<longrightarrow> s' = s)"
proof (cases e)
  case (SelectSquare sq)
  with assms show ?thesis by (simp add: selectSquare_def)
next
  case (MouseDown sq x y)
  with assms show ?thesis by (simp add: onMouseDown_def)
next
  case (MouseMove x y)
  with assms show ?thesis by (simp add: onMouseMove_def Let_def)
next
  case (MouseUp sq)
  with assms show ?thesis
    by (simp add: onMouseUp_def Let_def selectSquare_def attemptMove_def)
next
  case (AttemptMove a b)
  with assms show ?thesis by (simp add: attemptMove_def)
qed

text \<open>
  C6, as the code has it. While \<^verbatim>\<open>animating\<close> is true, no sequence of input events
  produces a judged attempt or an error, the lock stays set, and pieces, side to move,
  castling rights, last move, counters, \<^verbatim>\<open>solved\<close> and the puzzle stay as they are.
  Square selections, pointer-down events and direct attempts change nothing at all; the
  handlers of pointer-up and pointer motion have no guard, they still end or continue a
  drag and may change the selection.
\<close>

theorem input_while_animating:
  assumes "animating s"
  shows "\<exists>s'. handle_all evs s = Inr ([], s') \<and> animating s'
          \<and> pieces s' = pieces s \<and> turn s' = turn s \<and> castling s' = castling s
          \<and> lastMove s' = lastMove s \<and> totalAttempts s' = totalAttempts s
          \<and> totalSolved s' = totalSolved s \<and> solved s' = solved s \<and> puzzle s' = puzzle s
          \<and> ((\<forall>e\<in>set evs. \<not> unguarded e) \<longrightarrow> s' = s)"
  using assms
proof (induction evs arbitrary: s)
  case Nil
  then show ?case by simp
next
  case (Cons e evs)
  from handle_while_animating [OF Cons.prems, of e]
  obtain s1 where h: "handle e s = Inr (None, s1)" and a1: "animating s1"
    and f1: "pieces s1 = pieces s" "turn s1 = turn s" "castling s1 = castling s"
      "lastMove s1 = lastMove s" "totalAttempts s1 = totalAttempts s"
      "totalSolved s1 = totalSolved s" "solved s1 = solved s" "puzzle s1 = puzzle s"
    and g1: "\<not> unguarded e \<longrightarrow> s1 = s"
    by blast
  from Cons.IH [OF a1]
  obtain s2 where h2: "handle_all evs s1 = Inr ([], s2)" and a2: "animating s2"
    and f2: "pieces s2 = pieces s1" "turn s2 = turn s1" "castling s2 = castling s1"
      "lastMove s2 = lastMove s1" "totalAttempts s2 = totalAttempts s1"
      "totalSolved s2 = totalSolved s1" "solved s2 = solved s1" "puzzle s2 = puzzle s1"
    and g2: "(\<forall>e\<in>set evs. \<not> unguarded e) \<longrightarrow> s2 = s1"
    by blast
  have "handle_all (e # evs) s = Inr ([], s2)"
    by (simp add: h h2)
  with a2 f1 f2 g1 g2 show ?case by simp
qed

lemma selected_during_playback_fields: "animating selected_during_playback" "selectedSquare selected_during_playback = Some ''d2''"
  "dragging selected_during_playback = None" "hasDragged selected_during_playback = False"
  by (simp_all add: selected_during_playback_def)

text \<open>
  Counterexample to C6 as stated: while the continuation is played, a pointer-up outside
  the board clears the selection.
\<close>

theorem pointer_up_clears_selection_while_animating:
  "animating selected_during_playback
   \<and> selectedSquare selected_during_playback = Some ''d2''
   \<and> handle (MouseUp None) selected_during_playback
       = Inr (None, selected_during_playback
                      \<lparr> dragging := None, hasDragged := False, selectedSquare := None \<rparr>)"
  by (simp add: selected_during_playback_fields onMouseUp_def truthy_def)

text \<open>
  Witness for C6: a selection, a pointer-down and a direct attempt during the playback
  leave the state as it is and judge nothing.
\<close>

theorem input_while_animating_witness:
  "animating selected_during_playback
   \<and> handle_all [SelectSquare ''e7'', MouseDown (Some ''e7'') 5 5, AttemptMove ''e7'' ''e5'']
        selected_during_playback = Inr ([], selected_during_playback)"
  using input_while_animating [of selected_during_playback
      "[SelectSquare ''e7'', MouseDown (Some ''e7'') 5 5, AttemptMove ''e7'' ''e5'']"]
  by (auto simp: selected_during_playback_fields)

end
